theory Spec2Isabelle
  imports Complex_Main
begin

section \<open>Strings as the utilities use them\<close>

text \<open>
  A source string is modelled as a \<open>string\<close>, one \<open>char\<close> per code unit; \<open>length\<close> is the
  source's \<open>.length\<close>. Case conversion and white space are those of the code units below
  256: \<open>toLowerCase\<close> moves the capital letters of that range, and white space is what
  \<open>\s\<close> matches there. Numbers that the source computes
  by division are exact rationals here (the source rounds each of them to the nearest
  double, which keeps the order of the values).
\<close>

definition isWhiteSpace :: "char \<Rightarrow> bool" where
  \<comment> \<open>the class \<open>\s\<close> of a regular expression, which is also what \<open>trim\<close> removes\<close>
  "isWhiteSpace c =
     (c = CHR 0x09 \<or> c = CHR 0x0A \<or> c = CHR 0x0B \<or> c = CHR 0x0C \<or> c = CHR 0x0D
      \<or> c = CHR '' '' \<or> c = CHR 0xA0)"

definition lowerChar :: "char \<Rightarrow> char" where
  \<comment> \<open>the capital letters A to Z and, above them, U+00C0 to U+00DE without the sign U+00D7\<close>
  "lowerChar c =
     (let n = (of_char c :: nat)
      in if (65 \<le> n \<and> n \<le> 90) \<or> (192 \<le> n \<and> n \<le> 222 \<and> n \<noteq> 215)
         then char_of (n + 32) else c)"

definition toLowerCase :: "string \<Rightarrow> string" where
  "toLowerCase s = map lowerChar s"

definition trim :: "string \<Rightarrow> string" where
  "trim s = rev (dropWhile isWhiteSpace (rev (dropWhile isWhiteSpace s)))"

fun strIncludes :: "string \<Rightarrow> string \<Rightarrow> bool" where
  "strIncludes [] w = (w = [])"
| "strIncludes (c # cs) w = (take (length w) (c # cs) = w \<or> strIncludes cs w)"

text \<open>
  \<open>s.split(/\s+/)\<close>: every maximal run of white space is one separator; a separator at
  either end leaves an empty string there, and the empty string splits into \<open>[""]\<close>.
  \<open>acc\<close> is the part being read, reversed; \<open>insep\<close> says that the last character read
  belongs to a separator.
\<close>

fun splitWs :: "bool \<Rightarrow> string \<Rightarrow> string \<Rightarrow> string list" where
  "splitWs insep acc [] = [rev acc]"
| "splitWs insep acc (c # cs) =
     (if isWhiteSpace c
      then (if insep then splitWs True acc cs else rev acc # splitWs True [] cs)
      else splitWs False (c # acc) cs)"

definition splitWhitespace :: "string \<Rightarrow> string list" where
  "splitWhitespace s = splitWs False [] s"

section \<open>Search: the relevance of a result (utils/search)\<close>

text \<open>The two \<open>for\<close> loops that count matches are one fold each.\<close>

definition countMatches :: "string \<Rightarrow> string list \<Rightarrow> nat" where
  "countMatches text queryWords =
     fold (\<lambda>word n. if strIncludes text word then n + 1 else n) queryWords 0"

definition calculateRelevance :: "string \<Rightarrow> string \<Rightarrow> string \<Rightarrow> rat" where
  "calculateRelevance query title description =
     (let normalizedQuery = toLowerCase query;
          normalizedTitle = toLowerCase title;
          normalizedDescription = toLowerCase description;
          queryWords = filter (\<lambda>word. length word > 2) (splitWhitespace normalizedQuery);
          titleMatches = countMatches normalizedTitle queryWords;
          descriptionMatches = countMatches normalizedDescription queryWords;
          maxPossibleScore = length queryWords * 4;
          actualScore = titleMatches * 3 + descriptionMatches
      in if maxPossibleScore > 0 then of_nat actualScore / of_nat maxPossibleScore else 0)"

section \<open>Analysis: the relevance of a sentence (utils/analysis)\<close>

definition stopWords :: "string list" where
  "stopWords =
     [''a'', ''an'', ''the'', ''and'', ''or'', ''but'', ''if'', ''because'', ''as'', ''what'',
      ''which'', ''this'', ''that'', ''these'', ''those'', ''then'', ''just'', ''so'', ''than'',
      ''such'', ''both'', ''through'', ''about'', ''for'', ''is'', ''of'', ''while'', ''during'',
      ''to'', ''from'', ''in'', ''out'', ''on'', ''off'', ''over'', ''under'', ''again'', ''further'',
      ''then'', ''once'', ''here'', ''there'', ''when'', ''where'', ''why'', ''how'', ''all'', ''any'',
      ''both'', ''each'', ''few'', ''more'', ''most'', ''other'', ''some'', ''such'', ''no'', ''nor'',
      ''not'', ''only'', ''own'', ''same'', ''so'', ''than'', ''too'', ''very'', ''s'', ''t'', ''can'',
      ''will'', ''just'', ''don'', ''should'', ''now'']"

definition isStopWord :: "string \<Rightarrow> bool" where
  "isStopWord word = (toLowerCase word \<in> set stopWords)"

definition lengthFactor :: "nat \<Rightarrow> rat" where
  \<comment> \<open>\<open>1 - Math.min(Math.abs(length - 100) / 100, 0.5)\<close>\<close>
  "lengthFactor n = 1 - min (\<bar>of_nat n - 100\<bar> / 100) (1 / 2)"

definition calculateSentenceRelevance :: "string \<Rightarrow> string \<Rightarrow> rat" where
  "calculateSentenceRelevance sentence query =
     (let normalizedSentence = toLowerCase sentence;
          normalizedQuery = toLowerCase query;
          queryWords = filter (\<lambda>word. \<not> isStopWord word \<and> length word > 2)
                         (splitWhitespace normalizedQuery);
          matchCount = countMatches normalizedSentence queryWords;
          matchPercentage =
            (if length queryWords > 0 then of_nat matchCount / of_nat (length queryWords) else 0)
      in matchPercentage * (7 / 10) + lengthFactor (length normalizedSentence) * (3 / 10))"


section \<open>Questions: decomposition into sub-questions (utils/question)\<close>

definition removeQuestionMarks :: "string \<Rightarrow> string" where
  \<comment> \<open>\<open>s.replace(/\?/g, '')\<close>\<close>
  "removeQuestionMarks s = filter (\<lambda>c. c \<noteq> CHR ''?'') s"

definition conjunctions :: "string list" where
  "conjunctions = [''and'', ''or'', ''versus'', ''vs'', ''compared to'', ''differences between'']"

definition hasConjunction :: "string \<Rightarrow> bool" where
  \<comment> \<open>the loop over \<open>conjunctions\<close>: some connector is a substring of the lower-cased text\<close>
  "hasConjunction cleanQuestion =
     list_ex (\<lambda>conj. strIncludes (toLowerCase cleanQuestion) conj) conjunctions"

text \<open>
  The regular expressions of this module are an alternation of literal words, matched
  without regard to case, followed by \<open>\s+\<close>. \<open>startsWithWord w s\<close>: the alternative \<open>w\<close>
  (written in lower case) matches at the start of \<open>s\<close> and white space follows it. The
  matcher takes the first alternative, in the order written, for which the whole
  expression matches.
\<close>

definition startsWithWord :: "string \<Rightarrow> string \<Rightarrow> bool" where
  "startsWithWord w s =
     (toLowerCase (take (length w) s) = w
      \<and> (case drop (length w) s of [] \<Rightarrow> False | c # _ \<Rightarrow> isWhiteSpace c))"

definition stripLeading :: "string list \<Rightarrow> string \<Rightarrow> string" where
  \<comment> \<open>\<open>s.replace(/^(w1|w2|...)\s+/i, '')\<close>; the run of white space is removed whole\<close>
  "stripLeading alternatives s =
     (case find (\<lambda>w. startsWithWord w s) alternatives of
        None \<Rightarrow> s
      | Some w \<Rightarrow> dropWhile isWhiteSpace (drop (length w) s))"

definition questionWords :: "string list" where
  "questionWords =
     [''what'', ''who'', ''when'', ''where'', ''why'', ''how'', ''is'', ''are'', ''do'', ''does'',
      ''did'', ''can'', ''could'', ''would'', ''should'', ''will'']"

definition articles :: "string list" where
  "articles = [''the'', ''a'', ''an'']"

definition extractMainTopic :: "string \<Rightarrow> string option" where
  "extractMainTopic q =
     (let withoutQuestionWords = trim (stripLeading questionWords q);
          withoutArticles = trim (stripLeading articles withoutQuestionWords)
      in if length withoutArticles > 0 then Some withoutArticles else None)"

text \<open>
  \<open>cleanQuestion.split(/\s+(?:and|or|versus|vs|compared to)\s+/i)\<close>. A match starts with
  white space; the first \<open>\s+\<close> has to take the whole run, since every alternative starts
  with a letter. \<open>matchSeparator s\<close> is what follows a match at the start of \<open>s\<close>.
  \<open>splitConj\<close> tries every position from the left; \<open>acc\<close> is the part being read, reversed.
\<close>

definition separatorWords :: "string list" where
  "separatorWords = [''and'', ''or'', ''versus'', ''vs'', ''compared to'']"

definition matchSeparator :: "string \<Rightarrow> string option" where
  "matchSeparator s =
     (case s of
        [] \<Rightarrow> None
      | c # cs \<Rightarrow>
          if \<not> isWhiteSpace c then None
          else (let word = dropWhile isWhiteSpace cs
                in case find (\<lambda>w. startsWithWord w word) separatorWords of
                     None \<Rightarrow> None
                   | Some w \<Rightarrow> Some (dropWhile isWhiteSpace (drop (length w) word))))"

function splitConj :: "string \<Rightarrow> string \<Rightarrow> string list" where
  "splitConj acc [] = [rev acc]"
| "splitConj acc (c # cs) =
     (case matchSeparator (c # cs) of
        None \<Rightarrow> splitConj (c # acc) cs
      | Some rest \<Rightarrow> rev acc # splitConj [] rest)"
  by pat_completeness auto
termination
proof (relation "measure (\<lambda>(acc, s). length s)")
  fix acc :: string and c :: char and cs rest :: string
  assume m: "matchSeparator (c # cs) = Some rest"
  have le: "length (dropWhile isWhiteSpace (drop n (dropWhile isWhiteSpace cs))) \<le> length cs"
    for n
  proof -
    have "length (dropWhile isWhiteSpace (drop n (dropWhile isWhiteSpace cs)))
            \<le> length (drop n (dropWhile isWhiteSpace cs))"
      by (rule length_dropWhile_le)
    also have "\<dots> \<le> length (dropWhile isWhiteSpace cs)"
      by simp
    also have "\<dots> \<le> length cs"
      by (rule length_dropWhile_le)
    finally show ?thesis .
  qed
  from m have "length rest \<le> length cs"
    by (auto simp: matchSeparator_def Let_def le split: if_splits option.splits)
  then show "(([], rest), (acc, c # cs)) \<in> measure (\<lambda>(acc, s). length s)"
    by simp
qed simp_all

definition dedupe :: "string list \<Rightarrow> string list" where
  \<comment> \<open>\<open>Array.from(new Set(xs))\<close>: a set keeps the order of first insertion\<close>
  "dedupe xs = fold (\<lambda>x seen. if x \<in> set seen then seen else seen @ [x]) xs []"

definition analyzeQuestion :: "string \<Rightarrow> string list" where
  "analyzeQuestion q =
     (let cleanQuestion = trim (removeQuestionMarks q);
          parts = splitConj [] cleanQuestion
      in if hasConjunction cleanQuestion \<and> length parts > 1
         then map (\<lambda>part. trim part @ ''?'') parts
         else dedupe
                (q # (case extractMainTopic cleanQuestion of
                        None \<Rightarrow> []
                      | Some mainTopic \<Rightarrow>
                          [''What is '' @ mainTopic @ ''?'',
                           ''What are the key features of '' @ mainTopic @ ''?'',
                           ''What are the applications of '' @ mainTopic @ ''?''])))"

text \<open>
  \<open>weave parts separators\<close> puts the parts of a split together again, in their order, with
  the text that was matched between them.
\<close>

fun weave :: "string list \<Rightarrow> string list \<Rightarrow> string" where
  "weave [] seps = []"
| "weave (part # parts) [] = part"
| "weave (part # parts) (sep # seps) = part @ sep @ weave parts seps"

section \<open>The data of a research (types)\<close>

datatype ResearchStepType = QUESTION_ANALYSIS | SEARCH | RESULT_ANALYSIS | SYNTHESIS | FOLLOW_UP

datatype ResearchStatus = PLANNING | SEARCHING | ANALYZING | SYNTHESIZING | COMPLETED

datatype SubQuestionStatus = Pending | InProgress | Completed

record SearchResult =
  title :: string
  description :: string
  url :: string
  relevance :: "rat option"

record SubQuestion =
  sq_id :: string
  sq_question :: string
  sq_status :: SubQuestionStatus
  searchResults :: "SearchResult list option"
  analysis :: "string option"

record ResearchStep =
  step_id :: string
  step_type :: ResearchStepType
  content :: string
  timestamp :: int

text \<open>
  \<open>question\<close> is whatever \<open>params.query\<close> was when the research was started; the
  parameters are untyped, so it can be \<open>undefined\<close> (\<open>None\<close>).
\<close>

record ResearchData =
  research_id :: string
  question :: "string option"
  subQuestions :: "SubQuestion list"
  steps :: "ResearchStep list"
  status :: ResearchStatus
  report :: "string option"
  startTime :: int
  endTime :: "int option"

section \<open>Synthesis of the report (utils/synthesis)\<close>

definition dq :: string where
  "dq = [CHR 0x22]"

definition nl :: string where
  "nl = [CHR 0x0A]"

fun showNat :: "nat \<Rightarrow> string" where
  "showNat n =
     (if n < 10 then [char_of (48 + n)] else showNat (n div 10) @ [char_of (48 + n mod 10)])"

fun joinWith :: "string \<Rightarrow> string list \<Rightarrow> string" where
  "joinWith sep [] = []"
| "joinWith sep [x] = x"
| "joinWith sep (x # y # ys) = x @ sep @ joinWith sep (y # ys)"

definition completedWithAnalysis :: "SubQuestion \<Rightarrow> bool" where
  \<comment> \<open>\<open>sq.status === 'completed' && sq.analysis\<close>: an absent or empty analysis is falsy\<close>
  "completedWithAnalysis sq =
     (sq_status sq = Completed \<and> (case analysis sq of None \<Rightarrow> False | Some a \<Rightarrow> a \<noteq> []))"

definition generateIntroduction :: "string \<Rightarrow> string" where
  "generateIntroduction mainQuestion =
     ''This report presents a comprehensive analysis of the question: '' @ dq @ mainQuestion
     @ dq @ ''. '' @ nl
     @ ''The research was conducted using multiple sources and approaches to provide a thorough understanding of the topic.''"

definition generateCitations :: "string \<Rightarrow> SearchResult list \<Rightarrow> string" where
  "generateCitations analysisText results =
     (if results = [] then []
      else ''**Sources:**'' @ nl
           @ joinWith nl
               (map (\<lambda>(index, result).
                       ''['' @ showNat (index + 1) @ ''] '' @ title result @ '' - '' @ url result)
                  (enumerate 0 results)))"

definition sectionTitle :: "string \<Rightarrow> string" where
  "sectionTitle q = trim (removeQuestionMarks q)"

definition generateSection :: "string \<Rightarrow> string \<Rightarrow> SearchResult list \<Rightarrow> string" where
  "generateSection q analysisText results =
     ''## '' @ sectionTitle q @ nl @ nl @ analysisText @ nl @ nl
     @ generateCitations analysisText results"

definition synthesis_extractMainTopic :: "string \<Rightarrow> string" where
  \<comment> \<open>the module's own \<open>extractMainTopic\<close>: the question itself when nothing is left\<close>
  "synthesis_extractMainTopic q =
     (let withoutQuestionWords = trim (stripLeading questionWords q);
          withoutArticles = trim (stripLeading articles withoutQuestionWords)
      in if length withoutArticles > 0 then withoutArticles else q)"

definition generateConclusion :: "string \<Rightarrow> SubQuestion list \<Rightarrow> string" where
  "generateConclusion mainQuestion sqs =
     ''This research has explored various aspects of '' @ synthesis_extractMainTopic mainQuestion
     @ ''. '' @ nl
     @ ''The findings from different sub-questions provide a comprehensive understanding of the topic.''
     @ nl @ ''The research was based on '' @ showNat (length sqs)
     @ '' sub-questions and utilized multiple sources to ensure accuracy and depth.''"

text \<open>
  \<open>allSources\<close> is the \<open>Map\<close> from url to source, as the list of its entries \<open>(url, title)\<close>
  in the order of insertion; a url that is already a key is not set again.
\<close>

definition addSource :: "SearchResult \<Rightarrow> (string \<times> string) list \<Rightarrow> (string \<times> string) list" where
  "addSource result sources =
     (if url result \<in> set (map fst sources) then sources
      else sources @ [(url result, title result)])"

definition allSources :: "SubQuestion list \<Rightarrow> (string \<times> string) list" where
  "allSources sqs =
     fold (\<lambda>sq sources.
             case searchResults sq of None \<Rightarrow> sources | Some results \<Rightarrow> fold addSource results sources)
       sqs []"

definition generateSources :: "SubQuestion list \<Rightarrow> string" where
  "generateSources sqs =
     joinWith nl
       (map (\<lambda>(index, (sourceUrl, sourceTitle)).
               showNat (index + 1) @ ''. '' @ sourceTitle @ '' - '' @ sourceUrl)
          (enumerate 0 (allSources sqs)))"

definition analysisOf :: "SubQuestion \<Rightarrow> string" where
  \<comment> \<open>\<open>sq.analysis || ''\<close>\<close>
  "analysisOf sq = (case analysis sq of None \<Rightarrow> [] | Some a \<Rightarrow> a)"

definition resultsOf :: "SubQuestion \<Rightarrow> SearchResult list" where
  \<comment> \<open>\<open>sq.searchResults || []\<close>\<close>
  "resultsOf sq = (case searchResults sq of None \<Rightarrow> [] | Some results \<Rightarrow> results)"

definition sectionOf :: "SubQuestion \<Rightarrow> string" where
  \<comment> \<open>\<open>generateSection(sq.question, sq.analysis || '', sq.searchResults || [])\<close>\<close>
  "sectionOf sq = generateSection (sq_question sq) (analysisOf sq) (resultsOf sq)"

definition synthesizeReport :: "string \<Rightarrow> SubQuestion list \<Rightarrow> string" where
  "synthesizeReport mainQuestion sqs =
     (if sqs = [] then ''No research data available for question: '' @ dq @ mainQuestion @ dq
      else
        let completedSubQuestions = filter completedWithAnalysis sqs
        in if completedSubQuestions = []
           then ''Research is still in progress for question: '' @ dq @ mainQuestion @ dq
           else
             let introduction = generateIntroduction mainQuestion;
                 sections = map sectionOf completedSubQuestions;
                 conclusion = generateConclusion mainQuestion completedSubQuestions;
                 sources = generateSources completedSubQuestions
             in nl @ ''# Research Report: '' @ mainQuestion @ nl @ nl
                @ ''## Introduction'' @ nl @ introduction @ nl @ nl
                @ joinWith (nl @ nl) sections @ nl @ nl
                @ ''## Conclusion'' @ nl @ conclusion @ nl @ nl
                @ ''## Sources'' @ nl @ sources @ nl)"

section \<open>The deep-research tool (class DeepResearchTool)\<close>

text \<open>
  The parameters of a call are an untyped object; a field that is absent is \<open>None\<close>.
  A value is falsy when it is absent or the empty string (for the number
  \<open>maxSubQuestions\<close>: absent or 0).
\<close>

record params =
  query :: "string option"
  maxSubQuestions :: "int option"
  researchId :: "string option"
  action :: "string option"

definition falsy :: "string option \<Rightarrow> bool" where
  "falsy v = (case v of None \<Rightarrow> True | Some s \<Rightarrow> s = [])"

definition interpolate :: "string option \<Rightarrow> string" where
  \<comment> \<open>a value inside a template literal\<close>
  "interpolate v = (case v of None \<Rightarrow> ''undefined'' | Some s \<Rightarrow> s)"

text \<open>
  What an operation takes from outside: the identifiers \<open>uuidv4()\<close> returns and the
  times \<open>Date.now()\<close> returns, by the number of the call within the operation, and the two
  collaborators. \<open>performSearch e q\<close> is \<open>performSearch(q, this.apiKey, 10)\<close>, which asks
  the search service; \<open>analyzeResults e results q\<close> ranks by floating-point scores. Either
  returns its value (\<open>Inr\<close>) or throws (\<open>Inl\<close>).
\<close>

datatype thrown = Error string | TypeError

record env =
  uuidv4 :: "nat \<Rightarrow> string"
  now :: "nat \<Rightarrow> int"
  performSearch :: "string \<Rightarrow> thrown + SearchResult list"
  analyzeResults :: "SearchResult list \<Rightarrow> string \<Rightarrow> thrown + string"

text \<open>
  The \<open>result\<close> object of a successful response, one constructor for each shape the tool
  builds, with the fields in the order of the source:
  \<^item> \<open>StartResult researchId question subQuestions status\<close>
  \<^item> \<open>StatusResult researchId question status subQuestions steps startTime endTime\<close>
  \<^item> \<open>AlreadyCompleted researchId question status message\<close>
  \<^item> \<open>SubQuestionDone researchId question subQuestionCompleted remainingSubQuestions status\<close>
  \<^item> \<open>ResearchCompleted researchId question status message reportPreview\<close>
  \<^item> \<open>ReportResult researchId question report subQuestions steps startTime endTime duration\<close>
\<close>

datatype result =
    StartResult string "string option" "string list" ResearchStatus
  | StatusResult "string option" "string option" ResearchStatus
      "(string \<times> SubQuestionStatus) list" nat int "int option"
  | AlreadyCompleted "string option" "string option" ResearchStatus string
  | SubQuestionDone "string option" "string option" string nat ResearchStatus
  | ResearchCompleted string "string option" ResearchStatus string string
  | ReportResult "string option" "string option" "string option" nat nat int "int option"
      "rat option"

datatype response = Success result | Failed string

text \<open>
  The promise a method returns: fulfilled with a response, or rejected with what was
  thrown inside an \<open>async\<close> method.
\<close>

datatype outcome = Resolved response | Rejected thrown

type_synonym researches = "string \<Rightarrow> ResearchData option"

definition resultReport :: "result \<Rightarrow> string option" where
  \<comment> \<open>the \<open>report\<close> field of a result object, when it has one\<close>
  "resultReport r = (case r of ReportResult _ _ rep _ _ _ _ _ \<Rightarrow> rep | _ \<Rightarrow> None)"

definition slice0 :: "'a list \<Rightarrow> int \<Rightarrow> 'a list" where
  \<comment> \<open>\<open>xs.slice(0, n)\<close>: a negative end counts from the end of the array\<close>
  "slice0 xs n = (if n < 0 then take (nat (int (length xs) + n)) xs else take (nat n) xs)"

definition isPending :: "SubQuestion \<Rightarrow> bool" where
  "isPending sq = (sq_status sq = Pending)"

fun findIndex :: "('a \<Rightarrow> bool) \<Rightarrow> 'a list \<Rightarrow> nat option" where
  "findIndex P [] = None"
| "findIndex P (x # xs) = (if P x then Some 0 else map_option Suc (findIndex P xs))"

definition questionAnalysisStep :: "env \<Rightarrow> string option \<Rightarrow> SubQuestion list option \<Rightarrow> ResearchStep"
  where
  "questionAnalysisStep e q analysed =
     \<lparr>step_id = uuidv4 e 1, step_type = QUESTION_ANALYSIS,
      content = (case analysed of
                   None \<Rightarrow> ''Analyzing question: '' @ dq @ interpolate q @ dq
                 | Some sqs \<Rightarrow>
                     ''Analyzed question: '' @ dq @ interpolate q @ dq @ nl @ ''Generated ''
                     @ showNat (length sqs) @ '' sub-questions:'' @ nl
                     @ joinWith nl (map (\<lambda>sq. ''- '' @ sq_question sq) sqs)),
      timestamp = now e 1\<rparr>"

definition startResearch :: "env \<Rightarrow> params \<Rightarrow> researches \<Rightarrow> outcome \<times> researches" where
  "startResearch e p rs =
     (let rid = uuidv4 e 0;
          research = \<lparr>research_id = rid, question = query p, subQuestions = [],
                      steps = [questionAnalysisStep e (query p) None],
                      status = PLANNING, report = None, startTime = now e 0, endTime = None\<rparr>
      in case query p of
           None \<Rightarrow>
             \<comment> \<open>\<open>analyzeQuestion(undefined)\<close> throws at \<open>question.replace\<close>\<close>
             (Rejected TypeError, rs(rid \<mapsto> research))
         | Some q \<Rightarrow>
             let maxSub = min (case maxSubQuestions p of
                                 None \<Rightarrow> 5
                               | Some m \<Rightarrow> if m = 0 then 5 else m) 10;
                 limitedSubQuestions = slice0 (analyzeQuestion q) maxSub;
                 sqs = map (\<lambda>(i, text).
                              \<lparr>sq_id = uuidv4 e (2 + i), sq_question = text, sq_status = Pending,
                               searchResults = None, analysis = None\<rparr>)
                         (enumerate 0 limitedSubQuestions)
             in (Resolved (Success (StartResult rid (query p) (map sq_question sqs) SEARCHING)),
                 rs(rid \<mapsto> research\<lparr>subQuestions := sqs,
                                    steps := [questionAnalysisStep e (query p) (Some sqs)],
                                    status := SEARCHING\<rparr>)))"

definition notFound :: "string option \<Rightarrow> outcome" where
  "notFound rid = Resolved (Failed (''Research not found: '' @ interpolate rid))"

definition lookupResearch :: "params \<Rightarrow> researches \<Rightarrow> (string \<times> ResearchData) option" where
  \<comment> \<open>\<open>!researchId || !this.researches.has(researchId)\<close> fails the lookup\<close>
  "lookupResearch p rs =
     (case researchId p of
        None \<Rightarrow> None
      | Some rid \<Rightarrow> if rid = [] then None else map_option (Pair rid) (rs rid))"

definition getResearchStatus :: "params \<Rightarrow> researches \<Rightarrow> outcome" where
  "getResearchStatus p rs =
     (case lookupResearch p rs of
        None \<Rightarrow> notFound (researchId p)
      | Some (rid, research) \<Rightarrow>
          Resolved (Success (StatusResult (researchId p) (question research) (status research)
            (map (\<lambda>sq. (sq_question sq, sq_status sq)) (subQuestions research))
            (length (steps research)) (startTime research) (endTime research))))"

definition synthesizeCall :: "string option \<Rightarrow> SubQuestion list \<Rightarrow> thrown + string" where
  \<comment> \<open>\<open>synthesizeReport(research.question, research.subQuestions)\<close>: an undefined question
      is printed as \<open>undefined\<close>, until \<open>generateConclusion\<close> calls \<open>question.replace\<close>\<close>
  "synthesizeCall mainQuestion sqs =
     (case mainQuestion of
        Some q \<Rightarrow> Inr (synthesizeReport q sqs)
      | None \<Rightarrow>
          if filter completedWithAnalysis sqs = [] then Inr (synthesizeReport ''undefined'' sqs)
          else Inl TypeError)"

definition synthesisStep :: "env \<Rightarrow> bool \<Rightarrow> ResearchStep" where
  "synthesisStep e done =
     \<lparr>step_id = uuidv4 e 0, step_type = SYNTHESIS,
      content = (if done then ''Synthesized research results''
                 else ''Synthesizing research results''),
      timestamp = now e 0\<rparr>"

definition synthesizeResults ::
  "env \<Rightarrow> string \<Rightarrow> ResearchData \<Rightarrow> researches \<Rightarrow> outcome \<times> researches" where
  \<comment> \<open>\<open>rid\<close> is the key under which the research object is stored\<close>
  "synthesizeResults e rid research rs =
     (let research1 = research\<lparr>steps := steps research @ [synthesisStep e False],
                               status := SYNTHESIZING\<rparr>
      in case synthesizeCall (question research) (subQuestions research) of
           Inl err \<Rightarrow> (Rejected err, rs(rid \<mapsto> research1))
         | Inr rep \<Rightarrow>
             (Resolved (Success (ResearchCompleted (research_id research) (question research)
                COMPLETED ''Research completed'' (take 500 rep @ ''...''))),
              rs(rid \<mapsto> research
                   \<lparr>steps := steps research @ [synthesisStep e True],
                    status := COMPLETED,
                    report := Some rep,
                    endTime := Some (now e 1)\<rparr>)))"

text \<open>
  The two steps \<open>continueResearch\<close> appends. The content of a step is replaced when its
  phase is over: \<open>found\<close> is the number of results, once the search has returned, and
  \<open>done\<close> says that the analysis has returned.
\<close>

definition searchStep :: "env \<Rightarrow> string \<Rightarrow> nat option \<Rightarrow> ResearchStep" where
  "searchStep e text found =
     \<lparr>step_id = uuidv4 e 0, step_type = SEARCH,
      content = (case found of
                   None \<Rightarrow> ''Searching for: '' @ dq @ text @ dq
                 | Some n \<Rightarrow> ''Searched for: '' @ dq @ text @ dq @ nl @ ''Found '' @ showNat n
                             @ '' results''),
      timestamp = now e 0\<rparr>"

definition analysisStep :: "env \<Rightarrow> string \<Rightarrow> bool \<Rightarrow> ResearchStep" where
  "analysisStep e text done =
     \<lparr>step_id = uuidv4 e 1, step_type = RESULT_ANALYSIS,
      content = (if done then ''Analyzed results for: '' @ dq @ text @ dq
                 else ''Analyzing results for: '' @ dq @ text @ dq),
      timestamp = now e 1\<rparr>"

definition continueResearch :: "env \<Rightarrow> params \<Rightarrow> researches \<Rightarrow> outcome \<times> researches" where
  "continueResearch e p rs =
     (case lookupResearch p rs of
        None \<Rightarrow> (notFound (researchId p), rs)
      | Some (rid, research) \<Rightarrow>
          if status research = COMPLETED
          then (Resolved (Success (AlreadyCompleted (researchId p) (question research)
                  (status research) ''Research is already completed'')), rs)
          else
            case findIndex isPending (subQuestions research) of
              None \<Rightarrow> synthesizeResults e rid research rs
            | Some i \<Rightarrow>
                let nextSubQuestion = subQuestions research ! i;
                    text = sq_question nextSubQuestion;
                    research1 = research
                      \<lparr>subQuestions := (subQuestions research)
                         [i := nextSubQuestion\<lparr>sq_status := InProgress\<rparr>],
                       steps := steps research @ [searchStep e text None]\<rparr>
                in case performSearch e text of
                     Inl err \<Rightarrow> (Rejected err, rs(rid \<mapsto> research1))
                   | Inr results \<Rightarrow>
                       let research2 = research
                             \<lparr>subQuestions := (subQuestions research)
                                [i := nextSubQuestion\<lparr>sq_status := InProgress,
                                                      searchResults := Some results\<rparr>],
                              steps := steps research
                                       @ [searchStep e text (Some (length results)),
                                          analysisStep e text False]\<rparr>
                       in case analyzeResults e results text of
                            Inl err \<Rightarrow> (Rejected err, rs(rid \<mapsto> research2))
                          | Inr a \<Rightarrow>
                              let sqs3 = (subQuestions research)
                                    [i := nextSubQuestion\<lparr>sq_status := Completed,
                                                          searchResults := Some results,
                                                          analysis := Some a\<rparr>]
                              in (Resolved (Success (SubQuestionDone (researchId p)
                                    (question research) text
                                    (length (filter isPending sqs3)) (status research))),
                                  rs(rid \<mapsto> research
                                       \<lparr>subQuestions := sqs3,
                                        steps := steps research
                                                 @ [searchStep e text (Some (length results)),
                                                    analysisStep e text True]\<rparr>)))"

definition duration :: "ResearchData \<Rightarrow> rat option" where
  \<comment> \<open>\<open>(research.endTime! - research.startTime) / 1000\<close>; \<open>None\<close> is \<open>NaN\<close>\<close>
  "duration research =
     (case endTime research of
        None \<Rightarrow> None
      | Some t \<Rightarrow> Some (of_int (t - startTime research) / 1000))"

definition generateReport :: "params \<Rightarrow> researches \<Rightarrow> outcome" where
  "generateReport p rs =
     (case lookupResearch p rs of
        None \<Rightarrow> notFound (researchId p)
      | Some (rid, research) \<Rightarrow>
          if status research \<noteq> COMPLETED
          then Resolved (Failed ''Research is not yet completed'')
          else Resolved (Success (ReportResult (researchId p) (question research)
                 (report research) (length (subQuestions research)) (length (steps research))
                 (startTime research) (endTime research) (duration research))))"

text \<open>
  \<open>execute\<close> returns the promise of the method it dispatches to without awaiting it, so
  its \<open>catch\<close> block sees only what is thrown before the dispatch: nothing, for a
  parameter object. A rejection of the method is the rejection of \<open>execute\<close>.
\<close>

definition requestedAction :: "params \<Rightarrow> string" where
  \<comment> \<open>\<open>params.action || 'start'\<close>\<close>
  "requestedAction p = (if falsy (action p) then ''start'' else interpolate (action p))"

definition execute :: "env \<Rightarrow> params \<Rightarrow> researches \<Rightarrow> outcome \<times> researches" where
  "execute e p rs =
     (if falsy (query p) \<and> falsy (researchId p)
      then (Resolved (Failed ''Either query or researchId is required''), rs)
      else
        let act = requestedAction p
        in if act = ''start'' then startResearch e p rs
           else if act = ''status'' then (getResearchStatus p rs, rs)
           else if act = ''continue'' then continueResearch e p rs
           else if act = ''report'' then (generateReport p rs, rs)
           else (Resolved (Failed (''Invalid action: '' @ act)), rs))"

section \<open>Sequences of operations\<close>

text \<open>
  An operation is a call of \<open>execute\<close> together with what it takes from outside.
  \<open>run\<close> is the store after a sequence of operations, and \<open>freshIds\<close> says that the first
  identifier each operation draws (the id of the research, for a start) is not the id of a
  stored research.
\<close>

fun run :: "(env \<times> params) list \<Rightarrow> researches \<Rightarrow> researches" where
  "run [] rs = rs"
| "run ((e, p) # ops) rs = run ops (snd (execute e p rs))"

fun freshIds :: "(env \<times> params) list \<Rightarrow> researches \<Rightarrow> bool" where
  "freshIds [] rs = True"
| "freshIds ((e, p) # ops) rs = (rs (uuidv4 e 0) = None \<and> freshIds ops (snd (execute e p rs)))"

text \<open>
  When a search or analysis call throws. \<open>searchOrAnalysisThrows e research\<close>: a continue
  operation on this research gets as far as \<open>performSearch\<close> for the first pending
  sub-question, and that call, or the call of \<open>analyzeResults\<close> on its results, throws.
  \<open>failsOn rid e p rs\<close>: the operation is such a continue operation on the research stored
  under \<open>rid\<close>. \<open>failures rid ops rs\<close> counts these operations in a sequence.
\<close>

definition searchOrAnalysisThrows :: "env \<Rightarrow> ResearchData \<Rightarrow> bool" where
  "searchOrAnalysisThrows e research =
     (status research \<noteq> COMPLETED
      \<and> (case findIndex isPending (subQuestions research) of
           None \<Rightarrow> False
         | Some i \<Rightarrow>
             (case performSearch e (sq_question (subQuestions research ! i)) of
                Inl err \<Rightarrow> True
              | Inr results \<Rightarrow>
                  (case analyzeResults e results (sq_question (subQuestions research ! i)) of
                     Inl err \<Rightarrow> True
                   | Inr a \<Rightarrow> False))))"

definition failsOn :: "string \<Rightarrow> env \<Rightarrow> params \<Rightarrow> researches \<Rightarrow> bool" where
  "failsOn rid e p rs =
     (requestedAction p = ''continue''
      \<and> (case lookupResearch p rs of
           None \<Rightarrow> False
         | Some (rid', research) \<Rightarrow> rid' = rid \<and> searchOrAnalysisThrows e research))"

fun failures :: "string \<Rightarrow> (env \<times> params) list \<Rightarrow> researches \<Rightarrow> nat" where
  "failures rid [] rs = 0"
| "failures rid ((e, p) # ops) rs =
     (if failsOn rid e p rs then 1 else 0) + failures rid ops (snd (execute e p rs))"

definition inProgressCount :: "ResearchData \<Rightarrow> nat" where
  "inProgressCount research =
     length (filter (\<lambda>sq. sq_status sq = InProgress) (subQuestions research))"


fun rank :: "ResearchStatus \<Rightarrow> nat" where
  "rank PLANNING = 0"
| "rank SEARCHING = 1"
| "rank ANALYZING = 2"
| "rank SYNTHESIZING = 3"
| "rank COMPLETED = 4"


section \<open>Example operations\<close>

text \<open>
  Collaborators and requests for concrete runs. \<open>exampleEnv t search\<close> is the outside of
  the \<open>t\<close>-th operation of a run: its identifiers are \<open>id-t-0\<close>, \<open>id-t-1\<close>, ... and its
  clock starts at \<open>1000 * t\<close> milliseconds.
\<close>

definition searchFinds :: "string \<Rightarrow> thrown + SearchResult list" where
  "searchFinds q =
     Inr [\<lparr>title = ''Energy'', description = ''Solar and wind energy.'',
           url = ''https://example.org/energy'',
           relevance = Some (calculateRelevance q ''Energy'' ''Solar and wind energy.'')\<rparr>]"

definition searchFails :: "string \<Rightarrow> thrown + SearchResult list" where
  "searchFails q = Inl (Error ''Failed to perform search: timeout'')"

definition exampleEnv :: "nat \<Rightarrow> (string \<Rightarrow> thrown + SearchResult list) \<Rightarrow> env" where
  "exampleEnv t search =
     \<lparr>uuidv4 = (\<lambda>n. ''id-'' @ showNat t @ ''-'' @ showNat n),
      now = (\<lambda>n. int (1000 * t + n)),
      performSearch = search,
      analyzeResults = (\<lambda>results q. Inr (''Findings for '' @ q))\<rparr>"

definition startParams :: "string \<Rightarrow> params" where
  "startParams q = \<lparr>query = Some q, maxSubQuestions = None, researchId = None, action = None\<rparr>"

definition actionParams :: "string \<Rightarrow> string \<Rightarrow> params" where
  "actionParams act rid =
     \<lparr>query = None, maxSubQuestions = None, researchId = Some rid, action = Some act\<rparr>"

definition started :: "(env \<times> params) list" where
  \<comment> \<open>a research with the two sub-questions \<open>Compare solar?\<close> and \<open>wind energy?\<close>\<close>
  "started = [(exampleEnv 1 searchFinds, startParams ''Compare solar and wind energy'')]"

definition completedRun :: "(env \<times> params) list" where
  "completedRun =
     started @ [(exampleEnv 2 searchFinds, actionParams ''continue'' ''id-1-0''),
                (exampleEnv 3 searchFinds, actionParams ''continue'' ''id-1-0''),
                (exampleEnv 4 searchFinds, actionParams ''continue'' ''id-1-0'')]"

definition subQuestionStatuses :: "researches \<Rightarrow> string \<Rightarrow> SubQuestionStatus list option" where
  "subQuestionStatuses rs rid = map_option (\<lambda>research. map sq_status (subQuestions research)) (rs rid)"

definition successResult :: "outcome \<Rightarrow> result option" where
  "successResult out = (case out of Resolved (Success r) \<Rightarrow> Some r | _ \<Rightarrow> None)"

definition resultDuration :: "result \<Rightarrow> rat option" where
  \<comment> \<open>the \<open>duration\<close> field of a result object, when it has one\<close>
  "resultDuration r = (case r of ReportResult _ _ _ _ _ _ _ d \<Rightarrow> d | _ \<Rightarrow> None)"

definition pendingResearch :: ResearchData where
  "pendingResearch =
     \<lparr>research_id = ''r1'', question = Some ''Solar power'',
      subQuestions = [\<lparr>sq_id = ''s1'', sq_question = ''Solar power?'', sq_status = Pending,
                       searchResults = None, analysis = None\<rparr>],
      steps = [], status = SEARCHING, report = None, startTime = 1000, endTime = None\<rparr>"

definition finishedResearch :: ResearchData where
  "finishedResearch =
     \<lparr>research_id = ''r2'', question = Some ''Wind power'', subQuestions = [], steps = [],
      status = COMPLETED, report = Some ''No research data'', startTime = 1000,
      endTime = Some 4000\<rparr>"

definition exampleSubQuestions :: "SubQuestion list" where
  \<comment> \<open>two completed sub-questions that share the source \<open>u2\<close>, and a pending one\<close>
  "exampleSubQuestions =
     [\<lparr>sq_id = ''s1'', sq_question = ''Compare solar?'', sq_status = Completed,
       searchResults = Some [\<lparr>title = ''Sun'', description = ''Solar.'', url = ''u1'',
                               relevance = Some 1\<rparr>,
                             \<lparr>title = ''Energy'', description = ''Both.'', url = ''u2'',
                               relevance = Some (1 / 2)\<rparr>],
       analysis = Some ''Solar findings''\<rparr>,
      \<lparr>sq_id = ''s2'', sq_question = ''wind energy?'', sq_status = Completed,
       searchResults = Some [\<lparr>title = ''Energy again'', description = ''Both.'', url = ''u2'',
                               relevance = Some 1\<rparr>,
                             \<lparr>title = ''Wind'', description = ''Wind.'', url = ''u3'',
                               relevance = None\<rparr>],
       analysis = Some ''Wind findings''\<rparr>,
      \<lparr>sq_id = ''s3'', sq_question = ''costs?'', sq_status = Pending,
       searchResults = None, analysis = None\<rparr>]"


section \<open>Relevance scores are bounded\<close>

lemma countMatches_filter: "countMatches t ws = length (filter (strIncludes t) ws)"
proof -
  have "fold (\<lambda>word n. if strIncludes t word then n + 1 else n) ws k
          = k + length (filter (strIncludes t) ws)" for k
    by (induction ws arbitrary: k) auto
  then show ?thesis by (simp add: countMatches_def)
qed

lemma countMatches_le: "countMatches t ws \<le> length ws"
  by (simp add: countMatches_filter)

lemma lengthFactor_bounds: "1 / 2 \<le> lengthFactor n \<and> lengthFactor n \<le> 1"
  by (simp add: lengthFactor_def min_def)

text \<open>
  C5. For every query, title and description the score of \<open>calculateRelevance\<close> lies in
  \<open>[0, 1]\<close>. With the tokens being the white-space-split words of the lower-cased query
  that are longer than 2 characters, the score is 0 when there is no token, and otherwise
  \<open>(titleMatches * 3 + descriptionMatches) / (tokenCount * 4)\<close>, where each count is the
  number of tokens that are substrings of the lower-cased title (description).
\<close>

theorem calculateRelevance_score:
  fixes queryText titleText descriptionText :: string
  defines "tokens \<equiv> filter (\<lambda>w. length w > 2) (splitWhitespace (toLowerCase queryText))"
  defines "titleMatches \<equiv> length (filter (strIncludes (toLowerCase titleText)) tokens)"
  defines "descriptionMatches \<equiv> length (filter (strIncludes (toLowerCase descriptionText)) tokens)"
  shows "0 \<le> calculateRelevance queryText titleText descriptionText
       \<and> calculateRelevance queryText titleText descriptionText \<le> 1
       \<and> (if tokens = [] then calculateRelevance queryText titleText descriptionText = 0
          else calculateRelevance queryText titleText descriptionText
               = of_nat (titleMatches * 3 + descriptionMatches) / of_nat (length tokens * 4))"
proof -
  have eq: "calculateRelevance queryText titleText descriptionText
      = (if tokens = [] then 0
         else of_nat (titleMatches * 3 + descriptionMatches) / of_nat (length tokens * 4))"
    unfolding calculateRelevance_def Let_def tokens_def titleMatches_def
      descriptionMatches_def countMatches_filter
    by simp
  have t: "titleMatches \<le> length tokens" and d: "descriptionMatches \<le> length tokens"
    by (simp_all add: titleMatches_def descriptionMatches_def)
  show ?thesis
  proof (cases "tokens = []")
    case True
    then show ?thesis using eq by simp
  next
    case False
    then have pos: "0 < length tokens" by simp
    have "titleMatches * 3 + descriptionMatches \<le> length tokens * 4" using t d by simp
    then have "(of_nat (titleMatches * 3 + descriptionMatches) :: rat)
                 \<le> of_nat (length tokens * 4)"
      using of_nat_le_iff by blast
    then have "(of_nat (titleMatches * 3 + descriptionMatches) :: rat)
                 / of_nat (length tokens * 4) \<le> 1"
      using pos by (simp add: divide_le_eq)
    then show ?thesis using eq False by simp
  qed
qed

theorem calculateRelevance_score_witness:
  "calculateRelevance ''Solar energy panels'' ''Solar power'' ''energy from panels'' = 5 / 12
   \<and> calculateRelevance ''is it'' ''it is'' ''is'' = 0"
proof -
  have tokens: "filter (\<lambda>w. length w > 2) (splitWhitespace (toLowerCase ''Solar energy panels''))
                  = [''solar'', ''energy'', ''panels'']"
    by code_simp
  have inTitle: "length (filter (strIncludes (toLowerCase ''Solar power''))
                   [''solar'', ''energy'', ''panels'']) = 1"
    by code_simp
  have inDescription: "length (filter (strIncludes (toLowerCase ''energy from panels''))
                         [''solar'', ''energy'', ''panels'']) = 2"
    by code_simp
  have none: "filter (\<lambda>w. length w > 2) (splitWhitespace (toLowerCase ''is it'')) = []"
    by code_simp
  show ?thesis
    using calculateRelevance_score
            [of "''Solar energy panels''" "''Solar power''" "''energy from panels''"]
          calculateRelevance_score [of "''is it''" "''it is''" "''is''"]
    unfolding tokens inTitle inDescription none
    by simp
qed

text \<open>
  C10. For every sentence and query the score of \<open>calculateSentenceRelevance\<close> lies in
  \<open>[0.15, 1]\<close>: the length factor is at least 0.5, so the score is at least
  \<open>0.5 * 0.3 = 0.15\<close> whatever the query matches.
\<close>

theorem calculateSentenceRelevance_bounds:
  "3 / 20 \<le> calculateSentenceRelevance sentence q
   \<and> calculateSentenceRelevance sentence q \<le> 1
   \<and> 1 / 2 \<le> lengthFactor (length (toLowerCase sentence))"
proof -
  define ws where
    "ws = filter (\<lambda>word. \<not> isStopWord word \<and> length word > 2)
            (splitWhitespace (toLowerCase q))"
  define mp :: rat where
    "mp = (if length ws > 0
           then of_nat (countMatches (toLowerCase sentence) ws) / of_nat (length ws) else 0)"
  define lf where "lf = lengthFactor (length (toLowerCase sentence))"
  have eq: "calculateSentenceRelevance sentence q = mp * (7 / 10) + lf * (3 / 10)"
    by (simp add: calculateSentenceRelevance_def Let_def mp_def lf_def ws_def)
  have mp0: "0 \<le> mp" by (simp add: mp_def)
  have mp1: "mp \<le> 1"
  proof (cases "length ws > 0")
    case True
    have "(of_nat (countMatches (toLowerCase sentence) ws) :: rat) \<le> of_nat (length ws)"
      using countMatches_le of_nat_le_iff by blast
    then show ?thesis using True by (simp add: mp_def divide_le_eq)
  next
    case False
    then show ?thesis by (simp add: mp_def)
  qed
  have lf: "1 / 2 \<le> lf" "lf \<le> 1" using lengthFactor_bounds by (simp_all add: lf_def)
  show ?thesis using eq mp0 mp1 lf by (simp add: lf_def)
qed

theorem calculateSentenceRelevance_bounds_witness:
  "calculateSentenceRelevance ''x'' ''the and'' = 3 / 20
   \<and> 3 / 20 \<le> calculateSentenceRelevance ''Wind power'' ''wind turbines''
   \<and> calculateSentenceRelevance ''Wind power'' ''wind turbines'' \<le> 1"
proof -
  have least: "calculateSentenceRelevance ''x'' ''the and'' = 3 / 20"
    by code_simp
  show ?thesis
    using calculateSentenceRelevance_bounds [of "''Wind power''" "''wind turbines''"] least
    by blast
qed

section \<open>Lists\<close>

text \<open>Inserting keys one by one, skipping those already present, keeps first occurrences.\<close>

lemma remdups_snoc: "remdups (ys @ [x]) = remdups (filter (\<lambda>y. y \<noteq> x) ys) @ [x]"
  by (induction ys) auto

lemma fold_insert_new:
  "fold (\<lambda>x seen. if x \<in> set seen then seen else seen @ [x]) xs seen
     = seen @ rev (remdups (rev (filter (\<lambda>x. x \<notin> set seen) xs)))"
proof (induction xs arbitrary: seen)
  case Nil
  then show ?case by simp
next
  case (Cons x xs)
  show ?case
  proof (cases "x \<in> set seen")
    case True
    then show ?thesis by (simp add: Cons.IH)
  next
    case False
    let ?F = "filter (\<lambda>y. y \<notin> set seen) xs"
    have "fold (\<lambda>x seen. if x \<in> set seen then seen else seen @ [x]) (x # xs) seen
            = (seen @ [x]) @ rev (remdups (rev (filter (\<lambda>y. y \<notin> set (seen @ [x])) xs)))"
      using False by (simp add: Cons.IH)
    also have "filter (\<lambda>y. y \<notin> set (seen @ [x])) xs = filter (\<lambda>y. y \<noteq> x) ?F"
      by (auto intro: filter_cong)
    also have "(seen @ [x]) @ rev (remdups (rev (filter (\<lambda>y. y \<noteq> x) ?F)))
                 = seen @ rev (remdups (rev (filter (\<lambda>y. y \<noteq> x) ?F)) @ [x])"
      by simp
    also have "remdups (rev (filter (\<lambda>y. y \<noteq> x) ?F)) @ [x] = remdups (rev ?F @ [x])"
      by (simp add: remdups_snoc rev_filter)
    also have "rev ?F @ [x] = rev (filter (\<lambda>y. y \<notin> set seen) (x # xs))"
      using False by simp
    finally show ?thesis .
  qed
qed

lemma findIndex_Some:
  "findIndex P xs = Some i \<Longrightarrow> i < length xs \<and> P (xs ! i) \<and> (\<forall>j<i. \<not> P (xs ! j))"
proof (induction xs arbitrary: i)
  case Nil
  then show ?case by simp
next
  case (Cons x xs)
  show ?case
  proof (cases "P x")
    case True
    with Cons.prems show ?thesis by simp
  next
    case False
    with Cons.prems obtain k where k: "findIndex P xs = Some k" "i = Suc k" by auto
    from Cons.IH [OF k(1)] False k(2) show ?thesis
      by (auto simp: nth_Cons split: nat.splits)
  qed
qed

lemma findIndex_None: "findIndex P xs = None \<longleftrightarrow> (\<forall>x\<in>set xs. \<not> P x)"
  by (induction xs) auto

lemma count_list_update:
  "i < length xs \<Longrightarrow> \<not> P (xs ! i)
     \<Longrightarrow> length (filter P (xs[i := y])) = length (filter P xs) + (if P y then 1 else 0)"
proof (induction xs arbitrary: i)
  case Nil
  then show ?case by simp
next
  case (Cons x xs)
  then show ?case by (cases i) auto
qed

section \<open>Decomposition of a question\<close>

lemma strIncludes_prefix: "strIncludes (w @ b) w"
proof (cases "w @ b")
  case Nil
  then show ?thesis by simp
next
  case (Cons c cs)
  have "take (length w) (c # cs) = w"
    using Cons by (metis append_eq_conv_conj)
  then have "strIncludes (c # cs) w"
    by (simp del: take_Suc_Cons)
  then show ?thesis unfolding Cons .
qed

lemma strIncludes_append: "strIncludes (a @ w @ b) w"
  by (induction a) (simp_all add: strIncludes_prefix)

lemma startsWithWord_lower:
  "startsWithWord w s \<Longrightarrow> \<exists>rest. toLowerCase s = w @ rest"
proof -
  assume "startsWithWord w s"
  then have "toLowerCase (take (length w) s) = w" by (simp add: startsWithWord_def)
  moreover have "toLowerCase s = toLowerCase (take (length w) s) @ toLowerCase (drop (length w) s)"
    unfolding toLowerCase_def by (metis append_take_drop_id map_append)
  ultimately show ?thesis by metis
qed

lemma matchSeparator_includes:
  assumes "matchSeparator s = Some rest"
  shows "\<exists>w\<in>set separatorWords. strIncludes (toLowerCase s) w"
proof -
  from assms obtain c cs w where s: "s = c # cs"
    and f: "find (\<lambda>w. startsWithWord w (dropWhile isWhiteSpace cs)) separatorWords = Some w"
    by (auto simp: matchSeparator_def Let_def split: list.splits if_splits option.splits)
  from f have w: "w \<in> set separatorWords" "startsWithWord w (dropWhile isWhiteSpace cs)"
    by (auto simp: find_Some_iff)
  from startsWithWord_lower [OF w(2)] obtain r where
    r: "toLowerCase (dropWhile isWhiteSpace cs) = w @ r" by blast
  have "s = (c # takeWhile isWhiteSpace cs) @ dropWhile isWhiteSpace cs"
    by (simp add: s)
  then have "toLowerCase s
               = toLowerCase (c # takeWhile isWhiteSpace cs) @ toLowerCase (dropWhile isWhiteSpace cs)"
    unfolding toLowerCase_def by (metis map_append)
  with r have "toLowerCase s = toLowerCase (c # takeWhile isWhiteSpace cs) @ w @ r" by simp
  then show ?thesis using w(1) strIncludes_append by metis
qed

lemma strIncludes_suffix: "strIncludes b w \<Longrightarrow> strIncludes (a @ b) w"
  by (induction a) auto

lemma splitConj_several:
  "1 < length (splitConj acc s) \<Longrightarrow> \<exists>a b rest. s = a @ b \<and> matchSeparator b = Some rest"
proof (induction acc s rule: splitConj.induct)
  case (1 acc)
  then show ?case by simp
next
  case (2 acc c cs)
  show ?case
  proof (cases "matchSeparator (c # cs)")
    case None
    with 2 obtain a b rest where "cs = a @ b" "matchSeparator b = Some rest" by auto
    then have "c # cs = (c # a) @ b \<and> matchSeparator b = Some rest" by simp
    then show ?thesis by blast
  next
    case (Some rest)
    then have "c # cs = [] @ (c # cs) \<and> matchSeparator (c # cs) = Some rest" by simp
    then show ?thesis by blast
  qed
qed

lemma splitConj_hasConjunction:
  assumes "1 < length (splitConj [] s)"
  shows "hasConjunction s"
proof -
  from splitConj_several [OF assms] obtain a b rest where
    ab: "s = a @ b" "matchSeparator b = Some rest" by blast
  from matchSeparator_includes [OF ab(2)] obtain w where
    w: "w \<in> set separatorWords" "strIncludes (toLowerCase b) w" by blast
  have "toLowerCase s = toLowerCase a @ toLowerCase b"
    by (simp add: ab(1) toLowerCase_def)
  with w(2) have "strIncludes (toLowerCase s) w" by (simp add: strIncludes_suffix)
  moreover from w(1) have "w \<in> set conjunctions"
    by (auto simp: separatorWords_def conjunctions_def)
  ultimately show ?thesis by (auto simp: hasConjunction_def list_ex_iff)
qed

lemma lowerChar_whiteSpace: "isWhiteSpace c \<Longrightarrow> lowerChar c = c"
proof -
  have "lowerChar (CHR 0x09) = CHR 0x09" "lowerChar (CHR 0x0A) = CHR 0x0A"
    "lowerChar (CHR 0x0B) = CHR 0x0B" "lowerChar (CHR 0x0C) = CHR 0x0C"
    "lowerChar (CHR 0x0D) = CHR 0x0D" "lowerChar (CHR '' '') = CHR '' ''"
    "lowerChar (CHR 0xA0) = CHR 0xA0"
    by code_simp+
  then show "isWhiteSpace c \<Longrightarrow> lowerChar c = c"
    by (auto simp: isWhiteSpace_def)
qed

text \<open>A connector word, in whatever case, starts with a character that is not white space.\<close>

lemma connector_starts_with_letter:
  assumes "toLowerCase kw \<in> set separatorWords"
  shows "kw \<noteq> []" and "\<not> isWhiteSpace (hd kw)"
proof -
  have ne: "\<forall>w\<in>set separatorWords. w \<noteq> [] \<and> \<not> isWhiteSpace (hd w)"
    by code_simp
  from assms ne have l: "toLowerCase kw \<noteq> []" "\<not> isWhiteSpace (hd (toLowerCase kw))"
    by blast+
  from l(1) show k: "kw \<noteq> []" by (simp add: toLowerCase_def)
  show "\<not> isWhiteSpace (hd kw)"
  proof
    assume w: "isWhiteSpace (hd kw)"
    from k have "hd (toLowerCase kw) = lowerChar (hd kw)"
      by (simp add: toLowerCase_def hd_map)
    with w l(2) show False by (simp add: lowerChar_whiteSpace)
  qed
qed

lemma matchSeparator_connector:
  assumes "isWhiteSpace c1" and "isWhiteSpace c2" and "toLowerCase kw \<in> set separatorWords"
  shows "matchSeparator (c1 # kw @ c2 # b) \<noteq> None"
proof -
  note k = connector_starts_with_letter [OF assms(3)]
  from k have word: "dropWhile isWhiteSpace (kw @ c2 # b) = kw @ c2 # b"
    by (cases kw) simp_all
  have "length (toLowerCase kw) = length kw" by (simp add: toLowerCase_def)
  then have "startsWithWord (toLowerCase kw) (kw @ c2 # b)"
    using assms(2) by (simp add: startsWithWord_def)
  with assms(3) have "find (\<lambda>w. startsWithWord w (kw @ c2 # b)) separatorWords \<noteq> None"
    by (auto simp: find_None_iff)
  then show ?thesis
    using assms(1) by (auto simp: matchSeparator_def word)
qed

lemma matchSeparator_Some:
  assumes "matchSeparator s = Some rest"
  obtains c w1 kw c2 w2 where "s = c # w1 @ kw @ c2 # w2 @ rest"
    and "isWhiteSpace c" and "\<forall>x\<in>set w1. isWhiteSpace x"
    and "toLowerCase kw \<in> set separatorWords"
    and "isWhiteSpace c2" and "\<forall>x\<in>set w2. isWhiteSpace x"
proof -
  from assms obtain c cs w where s: "s = c # cs" and c: "isWhiteSpace c"
    and f: "find (\<lambda>w. startsWithWord w (dropWhile isWhiteSpace cs)) separatorWords = Some w"
    and r: "rest = dropWhile isWhiteSpace (drop (length w) (dropWhile isWhiteSpace cs))"
    by (auto simp: matchSeparator_def Let_def split: list.splits if_splits option.splits)
  define word where "word = dropWhile isWhiteSpace cs"
  define w1 where "w1 = takeWhile isWhiteSpace cs"
  define kw where "kw = take (length w) word"
  from f have w: "w \<in> set separatorWords" "startsWithWord w word"
    by (auto simp: find_Some_iff word_def)
  from w(2) obtain c2 tl where d: "drop (length w) word = c2 # tl" "isWhiteSpace c2"
    and l: "toLowerCase kw = w"
    by (auto simp: startsWithWord_def kw_def split: list.splits)
  define w2 where "w2 = takeWhile isWhiteSpace tl"
  have "rest = dropWhile isWhiteSpace tl"
    using r d by (simp add: word_def)
  then have tl: "tl = w2 @ rest"
    by (simp add: w2_def)
  have "word = kw @ drop (length w) word"
    by (simp add: kw_def)
  then have word: "word = kw @ c2 # w2 @ rest"
    using d(1) tl by simp
  have "cs = w1 @ word"
    by (simp add: w1_def word_def)
  then have 1: "s = c # w1 @ kw @ c2 # w2 @ rest"
    using s word by simp
  have 2: "\<forall>x\<in>set w1. isWhiteSpace x" "\<forall>x\<in>set w2. isWhiteSpace x"
    by (auto simp: w1_def w2_def dest: set_takeWhileD)
  from l w(1) have 3: "toLowerCase kw \<in> set separatorWords" by simp
  show ?thesis by (rule that [OF 1 c 2(1) 3 d(2) 2(2)])
qed

lemma splitConj_nonempty: "splitConj acc s \<noteq> []"
  by (induction acc s rule: splitConj.induct) (auto split: option.splits)

lemma splitConj_match:
  "matchSeparator b = Some rest \<Longrightarrow> 1 < length (splitConj acc (a @ b))"
proof (induction a arbitrary: acc)
  case Nil
  then obtain c cs where b: "b = c # cs" by (cases b) (auto simp: matchSeparator_def)
  with Nil splitConj_nonempty [of "[]" rest] show ?case
    by (cases "splitConj [] rest") auto
next
  case (Cons x a)
  show ?case
  proof (cases "matchSeparator (x # a @ b)")
    case None
    with Cons show ?thesis by simp
  next
    case (Some r)
    with splitConj_nonempty [of "[]" r] show ?thesis
      by (cases "splitConj [] r") auto
  qed
qed

text \<open>
  The split gives several parts exactly when a connector word stands in the text with a
  white-space character on either side.
\<close>

lemma splitConj_several_iff:
  "1 < length (splitConj [] s)
     \<longleftrightarrow> (\<exists>a c1 kw c2 b. s = a @ c1 # kw @ c2 # b \<and> isWhiteSpace c1 \<and> isWhiteSpace c2
            \<and> toLowerCase kw \<in> {''and'', ''or'', ''versus'', ''vs'', ''compared to''})"
proof
  assume "1 < length (splitConj [] s)"
  from splitConj_several [OF this] obtain a b rest where
    ab: "s = a @ b" "matchSeparator b = Some rest" by blast
  from matchSeparator_Some [OF ab(2)] obtain c w1 kw c2 w2 where
    m: "b = c # w1 @ kw @ c2 # w2 @ rest" "isWhiteSpace c" "\<forall>x\<in>set w1. isWhiteSpace x"
      "toLowerCase kw \<in> set separatorWords" "isWhiteSpace c2"
    by metis
  have "c # w1 = butlast (c # w1) @ [last (c # w1)]" by simp
  then have "s = (a @ butlast (c # w1)) @ last (c # w1) # kw @ c2 # (w2 @ rest)"
    unfolding ab(1) m(1) by (metis append_Cons append_Nil append_assoc)
  moreover have "isWhiteSpace (last (c # w1))"
    using m(2,3) by (metis last_in_set list.discI set_ConsD)
  moreover have "toLowerCase kw \<in> {''and'', ''or'', ''versus'', ''vs'', ''compared to''}"
    using m(4) by (simp add: separatorWords_def)
  ultimately show "\<exists>a c1 kw c2 b. s = a @ c1 # kw @ c2 # b \<and> isWhiteSpace c1 \<and> isWhiteSpace c2
            \<and> toLowerCase kw \<in> {''and'', ''or'', ''versus'', ''vs'', ''compared to''}"
    using m(5) by blast
next
  assume "\<exists>a c1 kw c2 b. s = a @ c1 # kw @ c2 # b \<and> isWhiteSpace c1 \<and> isWhiteSpace c2
            \<and> toLowerCase kw \<in> {''and'', ''or'', ''versus'', ''vs'', ''compared to''}"
  then obtain a c1 kw c2 b where s: "s = a @ c1 # kw @ c2 # b"
    and c: "isWhiteSpace c1" "isWhiteSpace c2"
    and k: "toLowerCase kw \<in> {''and'', ''or'', ''versus'', ''vs'', ''compared to''}"
    by blast
  from k have "toLowerCase kw \<in> set separatorWords" by (simp add: separatorWords_def)
  from matchSeparator_connector [OF c this] obtain rest where
    "matchSeparator (c1 # kw @ c2 # b) = Some rest" by blast
  from splitConj_match [OF this] show "1 < length (splitConj [] s)" by (simp add: s)
qed

text \<open>
  The parts of the split are the stretches of the text between the matches, in their
  order: woven together with the matched separators they give the text back. A separator
  begins and ends with white space.
\<close>

lemma splitConj_weave:
  "\<exists>seps. length seps + 1 = length (splitConj acc s)
          \<and> weave (splitConj acc s) seps = rev acc @ s
          \<and> (\<forall>sep\<in>set seps. sep \<noteq> [] \<and> isWhiteSpace (hd sep) \<and> isWhiteSpace (last sep))"
proof (induction acc s rule: splitConj.induct)
  case (1 acc)
  show ?case by (rule exI [of _ "[]"]) simp
next
  case (2 acc c cs)
  show ?case
  proof (cases "matchSeparator (c # cs)")
    case None
    with 2 show ?thesis by simp
  next
    case (Some rest)
    from matchSeparator_Some [OF Some] obtain c' w1 kw c2 w2 where
      m: "c # cs = c' # w1 @ kw @ c2 # w2 @ rest" "isWhiteSpace c'"
        "isWhiteSpace c2" "\<forall>x\<in>set w2. isWhiteSpace x"
      by metis
    let ?sep = "c' # w1 @ kw @ c2 # w2"
    have sep: "c # cs = ?sep @ rest" using m(1) by simp
    have l: "isWhiteSpace (last ?sep)"
      using m(3,4) by (cases w2 rule: rev_cases) auto
    from 2(2) [OF Some] obtain seps where
      seps: "length seps + 1 = length (splitConj [] rest)"
        "weave (splitConj [] rest) seps = rest"
        "\<forall>sep\<in>set seps. sep \<noteq> [] \<and> isWhiteSpace (hd sep) \<and> isWhiteSpace (last sep)"
      by auto
    have "weave (rev acc # splitConj [] rest) (?sep # seps) = rev acc @ ?sep @ rest"
      using seps(2) by simp
    then have "weave (splitConj acc (c # cs)) (?sep # seps) = rev acc @ c # cs"
      using Some sep by simp
    moreover have "length (?sep # seps) + 1 = length (splitConj acc (c # cs))"
      using Some seps(1) by simp
    moreover have "\<forall>sep\<in>set (?sep # seps).
                     sep \<noteq> [] \<and> isWhiteSpace (hd sep) \<and> isWhiteSpace (last sep)"
      using seps(3) m(2) l by simp
    ultimately show ?thesis by blast
  qed
qed

text \<open>
  C3, as the code has it. Let the cleaned text be the question without question marks,
  trimmed. When one of the connector words and, or, versus, vs, compared to (in any
  case) stands in it with a white-space character on either side, \<open>analyzeQuestion\<close>
  returns at least 2 sub-questions: the parts of the text between the connectors, in
  their order from left to right, each trimmed and ending in a question mark. Otherwise,
  also when a connector occurs only inside a word or is \<open>differences between\<close>, it
  returns the question as it is, followed by the aspect questions of its topic.
\<close>

theorem analyzeQuestion_splits_on_connector_words:
  fixes q :: string
  defines "cleanQuestion \<equiv> trim (removeQuestionMarks q)"
  defines "parts \<equiv> splitConj [] cleanQuestion"
  defines "connector \<equiv>
    (\<exists>a c1 kw c2 b. cleanQuestion = a @ c1 # kw @ c2 # b \<and> isWhiteSpace c1 \<and> isWhiteSpace c2
       \<and> toLowerCase kw \<in> {''and'', ''or'', ''versus'', ''vs'', ''compared to''})"
  shows "analyzeQuestion q =
           (if connector then map (\<lambda>part. trim part @ ''?'') parts
            else dedupe (q # (case extractMainTopic cleanQuestion of
                                None \<Rightarrow> []
                              | Some mainTopic \<Rightarrow>
                                  [''What is '' @ mainTopic @ ''?'',
                                   ''What are the key features of '' @ mainTopic @ ''?'',
                                   ''What are the applications of '' @ mainTopic @ ''?''])))
       \<and> (connector \<longrightarrow>
            2 \<le> length (analyzeQuestion q)
            \<and> (\<forall>s\<in>set (analyzeQuestion q). s \<noteq> [] \<and> last s = CHR ''?'')
            \<and> (\<exists>seps. length seps + 1 = length parts \<and> weave parts seps = cleanQuestion
                  \<and> (\<forall>sep\<in>set seps.
                        sep \<noteq> [] \<and> isWhiteSpace (hd sep) \<and> isWhiteSpace (last sep))))"
proof -
  have c: "connector \<longleftrightarrow> 1 < length parts"
    unfolding connector_def parts_def by (rule splitConj_several_iff [symmetric])
  have eq: "analyzeQuestion q =
           (if connector then map (\<lambda>part. trim part @ ''?'') parts
            else dedupe (q # (case extractMainTopic cleanQuestion of
                                None \<Rightarrow> []
                              | Some mainTopic \<Rightarrow>
                                  [''What is '' @ mainTopic @ ''?'',
                                   ''What are the key features of '' @ mainTopic @ ''?'',
                                   ''What are the applications of '' @ mainTopic @ ''?''])))"
    using splitConj_hasConjunction [of cleanQuestion]
    unfolding c by (simp add: analyzeQuestion_def Let_def cleanQuestion_def parts_def)
  have w: "\<exists>seps. length seps + 1 = length parts \<and> weave parts seps = cleanQuestion
                  \<and> (\<forall>sep\<in>set seps.
                        sep \<noteq> [] \<and> isWhiteSpace (hd sep) \<and> isWhiteSpace (last sep))"
    using splitConj_weave [of "[]" cleanQuestion] by (simp add: parts_def)
  show ?thesis
  proof (cases connector)
    case True
    with eq have "analyzeQuestion q = map (\<lambda>part. trim part @ ''?'') parts" by simp
    moreover from True c have "2 \<le> length parts" by simp
    ultimately show ?thesis using eq w by auto
  next
    case False
    with eq show ?thesis by simp
  qed
qed

theorem analyzeQuestion_splits_witness:
  "analyzeQuestion ''Compare solar and wind energy'' = [''Compare solar?'', ''wind energy?'']
   \<and> analyzeQuestion ''Cats VS  dogs or birds?'' = [''Cats?'', ''dogs?'', ''birds?'']
   \<and> analyzeQuestion ''history''
       = [''history'', ''What is history?'', ''What are the key features of history?'',
          ''What are the applications of history?'']"
proof -
  have c1: "trim (removeQuestionMarks ''Compare solar and wind energy'')
              = ''Compare solar'' @ CHR '' '' # ''and'' @ CHR '' '' # ''wind energy''"
    by code_simp
  have c2: "trim (removeQuestionMarks ''Cats VS  dogs or birds?'')
              = ''Cats VS  dogs'' @ CHR '' '' # ''or'' @ CHR '' '' # ''birds''"
    by code_simp
  have k: "isWhiteSpace CHR '' ''"
    "toLowerCase ''and'' \<in> {''and'', ''or'', ''versus'', ''vs'', ''compared to''}"
    "toLowerCase ''or'' \<in> {''and'', ''or'', ''versus'', ''vs'', ''compared to''}"
    by code_simp+
  have e1: "\<exists>a c1 kw c2 b. trim (removeQuestionMarks ''Compare solar and wind energy'')
              = a @ c1 # kw @ c2 # b \<and> isWhiteSpace c1 \<and> isWhiteSpace c2
              \<and> toLowerCase kw \<in> {''and'', ''or'', ''versus'', ''vs'', ''compared to''}"
    using c1 k(1,2) by blast
  have e2: "\<exists>a c1 kw c2 b. trim (removeQuestionMarks ''Cats VS  dogs or birds?'')
              = a @ c1 # kw @ c2 # b \<and> isWhiteSpace c1 \<and> isWhiteSpace c2
              \<and> toLowerCase kw \<in> {''and'', ''or'', ''versus'', ''vs'', ''compared to''}"
    using c2 k(1,3) by blast
  have n: "\<not> 1 < length (splitConj [] (trim (removeQuestionMarks ''history'')))"
    by code_simp
  have e3: "\<not> (\<exists>a c1 kw c2 b. trim (removeQuestionMarks ''history'')
              = a @ c1 # kw @ c2 # b \<and> isWhiteSpace c1 \<and> isWhiteSpace c2
              \<and> toLowerCase kw \<in> {''and'', ''or'', ''versus'', ''vs'', ''compared to''})"
    using n unfolding splitConj_several_iff .
  have p: "map (\<lambda>part. trim part @ ''?'')
             (splitConj [] (trim (removeQuestionMarks ''Compare solar and wind energy'')))
             = [''Compare solar?'', ''wind energy?'']"
    "map (\<lambda>part. trim part @ ''?'')
             (splitConj [] (trim (removeQuestionMarks ''Cats VS  dogs or birds?'')))
             = [''Cats?'', ''dogs?'', ''birds?'']"
    "dedupe (''history'' # (case extractMainTopic (trim (removeQuestionMarks ''history'')) of
                                None \<Rightarrow> []
                              | Some mainTopic \<Rightarrow>
                                  [''What is '' @ mainTopic @ ''?'',
                                   ''What are the key features of '' @ mainTopic @ ''?'',
                                   ''What are the applications of '' @ mainTopic @ ''?'']))
       = [''history'', ''What is history?'', ''What are the key features of history?'',
          ''What are the applications of history?'']"
    by code_simp+
  from analyzeQuestion_splits_on_connector_words [of "''Compare solar and wind energy''"]
  have "analyzeQuestion ''Compare solar and wind energy'' = [''Compare solar?'', ''wind energy?'']"
    unfolding if_P [OF e1] p(1) by (rule conjunct1)
  moreover from analyzeQuestion_splits_on_connector_words [of "''Cats VS  dogs or birds?''"]
  have "analyzeQuestion ''Cats VS  dogs or birds?'' = [''Cats?'', ''dogs?'', ''birds?'']"
    unfolding if_P [OF e2] p(2) by (rule conjunct1)
  moreover from analyzeQuestion_splits_on_connector_words [of "''history''"]
  have "analyzeQuestion ''history''
       = [''history'', ''What is history?'', ''What are the key features of history?'',
          ''What are the applications of history?'']"
    unfolding if_not_P [OF e3] p(3) by (rule conjunct1)
  ultimately show ?thesis by blast
qed

text \<open>
  C3 as stated fails: the lower-cased text of \<open>history\<close> contains the connector \<open>or\<close>,
  and that of the second question the connector \<open>differences between\<close>, as words; neither
  question is split, and the first sub-question returned does not end in a question mark.
\<close>

theorem connector_inside_a_word:
  "strIncludes (toLowerCase ''history'') ''or''
   \<and> analyzeQuestion ''history''
       = [''history'', ''What is history?'', ''What are the key features of history?'',
          ''What are the applications of history?'']
   \<and> last (hd (analyzeQuestion ''history'')) \<noteq> CHR ''?''
   \<and> strIncludes (toLowerCase ''differences between cats dogs'') ''differences between''
   \<and> hd (analyzeQuestion ''differences between cats dogs'') = ''differences between cats dogs''"
  by code_simp

lemma dedupe_distinct: "distinct xs \<Longrightarrow> dedupe xs = xs"
proof -
  assume "distinct xs"
  then have "rev (remdups (rev xs)) = xs" by (simp add: distinct_remdups_id)
  then show ?thesis by (simp add: dedupe_def fold_insert_new)
qed

lemma trim_ends:
  assumes "trim s \<noteq> []"
  shows "\<not> isWhiteSpace (hd (trim s))" and "\<not> isWhiteSpace (last (trim s))"
proof -
  let ?d = "dropWhile isWhiteSpace s"
  let ?e = "dropWhile isWhiteSpace (rev ?d)"
  from assms have e: "?e \<noteq> []" by (simp add: trim_def)
  then have d: "?d \<noteq> []" by (metis dropWhile.simps(1) rev.simps(1))
  have "last (trim s) = hd ?e" using e by (simp add: trim_def last_rev)
  moreover from e have "\<not> isWhiteSpace (hd ?e)" by (metis hd_dropWhile)
  ultimately show "\<not> isWhiteSpace (last (trim s))" by simp
  have "rev ?d = takeWhile isWhiteSpace (rev ?d) @ ?e" by simp
  with e have "last (rev ?d) = last ?e" by (metis last_appendR)
  then have "hd (trim s) = hd ?d" using d by (simp add: trim_def hd_rev last_rev)
  moreover from d have "\<not> isWhiteSpace (hd ?d)" by (metis hd_dropWhile)
  ultimately show "\<not> isWhiteSpace (hd (trim s))" by simp
qed

lemma trim_id:
  assumes "s \<noteq> []" and "\<not> isWhiteSpace (hd s)" and "\<not> isWhiteSpace (last s)"
  shows "trim s = s"
proof -
  from assms(1,2) have "dropWhile isWhiteSpace s = s" by (cases s) auto
  moreover from assms(1,3) have "dropWhile isWhiteSpace (rev s) = rev s"
    by (cases "rev s") (auto simp: last_rev [symmetric] hd_rev)
  ultimately show ?thesis by (simp add: trim_def)
qed

lemma set_trim: "set (trim s) \<subseteq> set s"
proof
  fix x
  assume "x \<in> set (trim s)"
  then have "x \<in> set (dropWhile isWhiteSpace (rev (dropWhile isWhiteSpace s)))"
    by (simp add: trim_def)
  then have "x \<in> set (rev (dropWhile isWhiteSpace s))"
    by (rule set_dropWhileD)
  then have "x \<in> set (dropWhile isWhiteSpace s)"
    by simp
  then show "x \<in> set s"
    by (rule set_dropWhileD)
qed

lemma set_stripLeading: "set (stripLeading alternatives s) \<subseteq> set s"
  by (auto simp: stripLeading_def split: option.splits dest!: set_dropWhileD in_set_dropD)

lemma extractMainTopic_Some:
  assumes "extractMainTopic s = Some t"
  shows "t \<noteq> []" and "\<not> isWhiteSpace (last t)" and "set t \<subseteq> set s"
proof -
  let ?a = "trim (stripLeading questionWords s)"
  from assms have t: "t = trim (stripLeading articles ?a)" "t \<noteq> []"
    by (auto simp: extractMainTopic_def Let_def split: if_splits)
  show "t \<noteq> []" by (rule t(2))
  from t trim_ends(2) show "\<not> isWhiteSpace (last t)" by blast
  have "set t \<subseteq> set (stripLeading articles ?a)" unfolding t(1) by (rule set_trim)
  also have "\<dots> \<subseteq> set ?a" by (rule set_stripLeading)
  also have "\<dots> \<subseteq> set (stripLeading questionWords s)" by (rule set_trim)
  also have "\<dots> \<subseteq> set s" by (rule set_stripLeading)
  finally show "set t \<subseteq> set s" .
qed

lemma set_clean: "CHR ''?'' \<notin> set (trim (removeQuestionMarks q))"
  using set_trim [of "removeQuestionMarks q"] by (auto simp: removeQuestionMarks_def)

lemma startsWithWord_within:
  assumes "length w < length mid"
  shows "startsWithWord w (mid @ t) = startsWithWord w mid"
proof -
  from assms obtain c cs where "drop (length w) mid = c # cs"
    by (cases "drop (length w) mid") auto
  with assms show ?thesis by (simp add: startsWithWord_def)
qed

lemma no_article:
  assumes "\<forall>w\<in>set articles.
             length w \<le> length mid \<and> toLowerCase (take (length w) mid) \<noteq> w
             \<or> length w < length mid \<and> \<not> startsWithWord w mid"
  shows "find (\<lambda>w. startsWithWord w (mid @ t)) articles = None"
proof -
  have "\<not> startsWithWord w (mid @ t)" if "w \<in> set articles" for w
  proof -
    from assms that consider
      "length w \<le> length mid" "toLowerCase (take (length w) mid) \<noteq> w"
      | "length w < length mid" "\<not> startsWithWord w mid"
      by blast
    then show ?thesis
    proof cases
      case 1
      then show ?thesis by (simp add: startsWithWord_def)
    next
      case 2
      then show ?thesis by (simp add: startsWithWord_within)
    qed
  qed
  then show ?thesis by (auto simp: find_None_iff)
qed

text \<open>
  The topic of a question \<open>What mid t?\<close>, where \<open>mid\<close> does not start with an article, is
  \<open>mid t\<close>: only the leading \<open>What\<close> is removed.
\<close>

lemma topic_after_what:
  assumes t: "t \<noteq> []" "\<not> isWhiteSpace (last t)" "CHR ''?'' \<notin> set t"
    and mid: "mid \<noteq> []" "\<not> isWhiteSpace (hd mid)" "CHR ''?'' \<notin> set mid"
    and art: "find (\<lambda>w. startsWithWord w (mid @ t)) articles = None"
  shows "extractMainTopic (trim (removeQuestionMarks (''What '' @ mid @ t @ ''?''))) = Some (mid @ t)"
proof -
  have w: "\<not> isWhiteSpace CHR ''W''" "isWhiteSpace CHR '' ''"
    by (simp_all add: isWhiteSpace_def)
  have low: "toLowerCase ''What'' = ''what''"
    by code_simp
  have mt: "mid @ t \<noteq> []" "hd (mid @ t) = hd mid" "last (mid @ t) = last t"
    using t(1) mid(1) by simp_all
  have "filter (\<lambda>c. c \<noteq> CHR ''?'') mid = mid" "filter (\<lambda>c. c \<noteq> CHR ''?'') t = t"
    using t(3) mid(3) by (auto simp: filter_id_conv)
  then have "removeQuestionMarks (''What '' @ mid @ t @ ''?'') = ''What '' @ mid @ t"
    by (simp add: removeQuestionMarks_def)
  moreover have "trim (''What '' @ mid @ t) = ''What '' @ mid @ t"
    using t(1,2) w(1) by (intro trim_id) simp_all
  ultimately have clean: "trim (removeQuestionMarks (''What '' @ mid @ t @ ''?''))
                            = ''What '' @ mid @ t"
    by simp
  have "startsWithWord ''what'' (''What '' @ mid @ t)"
    using low w(2) by (simp add: startsWithWord_def)
  moreover have "questionWords = ''what'' # tl questionWords"
    by (simp add: questionWords_def)
  ultimately have "find (\<lambda>w. startsWithWord w (''What '' @ mid @ t)) questionWords = Some ''what''"
    by (metis find.simps(2))
  then have "stripLeading questionWords (''What '' @ mid @ t)
               = dropWhile isWhiteSpace (CHR '' '' # mid @ t)"
    by (simp add: stripLeading_def)
  also have "\<dots> = mid @ t"
    using w(2) mid(1,2) by (cases mid) simp_all
  finally have s1: "stripLeading questionWords (''What '' @ mid @ t) = mid @ t" .
  have tr: "trim (mid @ t) = mid @ t"
    using mt mid(2) t(2) by (intro trim_id) simp_all
  have s2: "stripLeading articles (mid @ t) = mid @ t"
    using art by (simp add: stripLeading_def)
  have "extractMainTopic (''What '' @ mid @ t) = Some (mid @ t)"
    using mt(1) unfolding extractMainTopic_def Let_def s1 tr s2 by simp
  then show ?thesis unfolding clean .
qed

lemma topic_of_templates:
  assumes "t \<noteq> []" and "\<not> isWhiteSpace (last t)" and "CHR ''?'' \<notin> set t"
  shows "extractMainTopic (trim (removeQuestionMarks (''What is '' @ t @ ''?'')))
           = Some (''is '' @ t)"
    and "extractMainTopic (trim (removeQuestionMarks (''What are the key features of '' @ t @ ''?'')))
           = Some (''are the key features of '' @ t)"
    and "extractMainTopic (trim (removeQuestionMarks (''What are the applications of '' @ t @ ''?'')))
           = Some (''are the applications of '' @ t)"
proof -
  have a: "\<forall>w\<in>set articles.
             length w \<le> length ''is '' \<and> toLowerCase (take (length w) ''is '') \<noteq> w
             \<or> length w < length ''is '' \<and> \<not> startsWithWord w ''is ''"
    "\<forall>w\<in>set articles.
       length w \<le> length ''are the key features of ''
         \<and> toLowerCase (take (length w) ''are the key features of '') \<noteq> w
       \<or> length w < length ''are the key features of ''
         \<and> \<not> startsWithWord w ''are the key features of ''"
    "\<forall>w\<in>set articles.
       length w \<le> length ''are the applications of ''
         \<and> toLowerCase (take (length w) ''are the applications of '') \<noteq> w
       \<or> length w < length ''are the applications of ''
         \<and> \<not> startsWithWord w ''are the applications of ''"
    by code_simp+
  have w: "\<not> isWhiteSpace CHR ''i''" "\<not> isWhiteSpace CHR ''a''"
    by (simp_all add: isWhiteSpace_def)
  from topic_after_what [OF assms _ _ _ no_article [OF a(1)]] w(1)
  show "extractMainTopic (trim (removeQuestionMarks (''What is '' @ t @ ''?'')))
          = Some (''is '' @ t)"
    by simp
  from topic_after_what [OF assms _ _ _ no_article [OF a(2)]] w(2)
  show "extractMainTopic (trim (removeQuestionMarks (''What are the key features of '' @ t @ ''?'')))
           = Some (''are the key features of '' @ t)"
    by simp
  from topic_after_what [OF assms _ _ _ no_article [OF a(3)]] w(2)
  show "extractMainTopic (trim (removeQuestionMarks (''What are the applications of '' @ t @ ''?'')))
           = Some (''are the applications of '' @ t)"
    by simp
qed

text \<open>
  C4. For every question whose cleaned text contains no connector (none as a substring
  of its lower-cased text, or at least none that stands as a word and splits it) and
  whose topic (the cleaned text without one leading question word and then one leading
  article) is not empty, \<open>analyzeQuestion\<close> returns exactly 4 sub-questions: the question
  itself and the three templates for the topic. Removing duplicates removes nothing,
  since the question is never one of its own templates.
\<close>

theorem analyzeQuestion_templates:
  assumes "\<not> hasConjunction (trim (removeQuestionMarks q))
           \<or> length (splitConj [] (trim (removeQuestionMarks q))) \<le> 1"
    and "extractMainTopic (trim (removeQuestionMarks q)) = Some topic"
  shows "analyzeQuestion q
           = [q, ''What is '' @ topic @ ''?'', ''What are the key features of '' @ topic @ ''?'',
              ''What are the applications of '' @ topic @ ''?'']
         \<and> length (analyzeQuestion q) = 4 \<and> distinct (analyzeQuestion q) \<and> topic \<noteq> []"
proof -
  note t = extractMainTopic_Some [OF assms(2)]
  from t(3) set_clean have nq: "CHR ''?'' \<notin> set topic" by blast
  note tt = topic_of_templates [OF t(1,2) nq]
  have "q \<noteq> ''What is '' @ topic @ ''?''"
    using assms(2) tt(1) by auto
  moreover have "q \<noteq> ''What are the key features of '' @ topic @ ''?''"
    using assms(2) tt(2) by auto
  moreover have "q \<noteq> ''What are the applications of '' @ topic @ ''?''"
    using assms(2) tt(3) by auto
  ultimately have d: "distinct [q, ''What is '' @ topic @ ''?'',
      ''What are the key features of '' @ topic @ ''?'',
      ''What are the applications of '' @ topic @ ''?'']"
    by simp
  have "\<not> (hasConjunction (trim (removeQuestionMarks q))
            \<and> 1 < length (splitConj [] (trim (removeQuestionMarks q))))"
    using assms(1) by auto
  then have "analyzeQuestion q = dedupe [q, ''What is '' @ topic @ ''?'',
      ''What are the key features of '' @ topic @ ''?'',
      ''What are the applications of '' @ topic @ ''?'']"
    using assms(2) unfolding analyzeQuestion_def Let_def by (simp only: if_False option.case)
  with d t(1) show ?thesis by (simp add: dedupe_distinct del: distinct.simps)
qed

theorem analyzeQuestion_templates_witness:
  "analyzeQuestion ''What is quantum computing''
     = [''What is quantum computing'', ''What is is quantum computing?'',
        ''What are the key features of is quantum computing?'',
        ''What are the applications of is quantum computing?'']
   \<and> analyzeQuestion ''The history of Rome?''
     = [''The history of Rome?'', ''What is history of Rome?'',
        ''What are the key features of history of Rome?'',
        ''What are the applications of history of Rome?'']"
proof -
  have h: "\<not> hasConjunction (trim (removeQuestionMarks ''What is quantum computing''))"
    "extractMainTopic (trim (removeQuestionMarks ''What is quantum computing''))
       = Some ''is quantum computing''"
    by code_simp+
  have h': "length (splitConj [] (trim (removeQuestionMarks ''The history of Rome?''))) \<le> 1"
    "extractMainTopic (trim (removeQuestionMarks ''The history of Rome?''))
       = Some ''history of Rome''"
    by code_simp+
  from analyzeQuestion_templates [OF disjI1 [OF h(1)] h(2)]
       analyzeQuestion_templates [OF disjI2 [OF h'(1)] h'(2)]
  show ?thesis by simp
qed

section \<open>The report\<close>

lemma keys_addSource:
  "map fst (addSource r sources)
     = (if url r \<in> set (map fst sources) then map fst sources else map fst sources @ [url r])"
  by (simp add: addSource_def)

lemma keys_fold_addSource:
  "map fst (fold addSource results sources)
     = fold (\<lambda>x seen. if x \<in> set seen then seen else seen @ [x]) (map url results)
         (map fst sources)"
  by (induction results arbitrary: sources) (simp_all add: keys_addSource)

lemma allSources_fold:
  "fold (\<lambda>sq sources.
           case searchResults sq of None \<Rightarrow> sources
           | Some results \<Rightarrow> fold addSource results sources) sqs sources
     = fold addSource (concat (map resultsOf sqs)) sources"
  by (induction sqs arbitrary: sources) (simp_all add: resultsOf_def split: option.splits)

lemma allSources_keys:
  "map fst (allSources sqs) = rev (remdups (rev (map url (concat (map resultsOf sqs)))))"
  by (simp add: allSources_def allSources_fold keys_fold_addSource fold_insert_new)

text \<open>
  C6, as the code has it. For every main question and list of sub-questions: an empty
  list gives the message \<open>No research data available\<close>; a non-empty list without a
  sub-question that is completed with a non-empty analysis gives the in-progress
  placeholder; otherwise the report has, between its introduction and its conclusion, one
  section for each such sub-question, in order, headed by \<open>##\<close> and the text of the
  sub-question without question marks (trimmed), and its Sources section lists the urls
  of the results of these sub-questions, each once, in the order in which they are first
  seen.
\<close>

theorem synthesizeReport_shape:
  fixes mainQuestion :: string and sqs :: "SubQuestion list"
  defines "completed \<equiv> filter completedWithAnalysis sqs"
  shows "synthesizeReport mainQuestion sqs =
      (if sqs = [] then ''No research data available for question: '' @ dq @ mainQuestion @ dq
       else if completed = []
       then ''Research is still in progress for question: '' @ dq @ mainQuestion @ dq
       else nl @ ''# Research Report: '' @ mainQuestion @ nl @ nl
            @ ''## Introduction'' @ nl @ generateIntroduction mainQuestion @ nl @ nl
            @ joinWith (nl @ nl)
                (map (\<lambda>sq. ''## '' @ sectionTitle (sq_question sq) @ nl @ nl @ analysisOf sq
                            @ nl @ nl @ generateCitations (analysisOf sq) (resultsOf sq))
                   completed)
            @ nl @ nl @ ''## Conclusion'' @ nl @ generateConclusion mainQuestion completed
            @ nl @ nl @ ''## Sources'' @ nl
            @ joinWith nl
                (map (\<lambda>(index, sourceUrl, sourceTitle).
                        showNat (index + 1) @ ''. '' @ sourceTitle @ '' - '' @ sourceUrl)
                   (enumerate 0 (allSources completed)))
            @ nl)
    \<and> map fst (allSources completed)
        = rev (remdups (rev (map url (concat (map resultsOf completed)))))
    \<and> distinct (map fst (allSources completed))"
proof -
  have sections: "sectionOf
      = (\<lambda>sq. ''## '' @ sectionTitle (sq_question sq) @ nl @ nl @ analysisOf sq
                @ nl @ nl @ generateCitations (analysisOf sq) (resultsOf sq))"
    by (rule ext) (simp add: sectionOf_def generateSection_def)
  have "distinct (map fst (allSources completed))"
    by (simp add: allSources_keys)
  then show ?thesis
    unfolding synthesizeReport_def Let_def generateSources_def completed_def [symmetric] sections
    by (simp add: allSources_keys)
qed

theorem synthesizeReport_shape_witness:
  "map fst (allSources (filter completedWithAnalysis exampleSubQuestions)) = [''u1'', ''u2'', ''u3'']
   \<and> distinct (map fst (allSources (filter completedWithAnalysis exampleSubQuestions)))"
proof -
  have "rev (remdups (rev (map url (concat (map resultsOf
          (filter completedWithAnalysis exampleSubQuestions)))))) = [''u1'', ''u2'', ''u3'']"
    by code_simp
  then show ?thesis
    using synthesizeReport_shape [of "''Compare solar and wind energy''" exampleSubQuestions]
    by simp
qed

text \<open>
  C6 as stated fails for the empty list: no sub-question is completed, and the message is
  not the in-progress placeholder.
\<close>

theorem synthesizeReport_empty_list:
  "filter completedWithAnalysis [] = []
   \<and> synthesizeReport ''Solar power'' []
       = ''No research data available for question: '' @ dq @ ''Solar power'' @ dq
   \<and> synthesizeReport ''Solar power'' []
       \<noteq> ''Research is still in progress for question: '' @ dq @ ''Solar power'' @ dq"
  by code_simp

section \<open>Single operations on a stored research\<close>

lemma lookupResearch_Some:
  "lookupResearch p rs = Some (rid, research)
     \<longleftrightarrow> researchId p = Some rid \<and> rid \<noteq> [] \<and> rs rid = Some research"
  by (auto simp: lookupResearch_def split: option.splits)

lemma execute_continue:
  "action p = Some ''continue'' \<Longrightarrow> lookupResearch p rs = Some (rid, research)
     \<Longrightarrow> execute e p rs = continueResearch e p rs"
  by (simp add: execute_def requestedAction_def falsy_def interpolate_def lookupResearch_Some)

lemma execute_report:
  "action p = Some ''report'' \<Longrightarrow> lookupResearch p rs = Some (rid, research)
     \<Longrightarrow> execute e p rs = (generateReport p rs, rs)"
  by (simp add: execute_def requestedAction_def falsy_def interpolate_def lookupResearch_Some)




text \<open>
  C7, as the code has it. For a research stored under a (non-empty) id, the report
  operation returns the error \<open>Research is not yet completed\<close> whenever the status is not
  \<open>completed\<close>, and otherwise the stored report together with the duration in seconds,
  \<open>(endTime - startTime) / 1000\<close>. The store is not changed.
\<close>

theorem report_operation:
  assumes "rs rid = Some research" and "rid \<noteq> []"
    and "researchId p = Some rid" and "action p = Some ''report''"
  shows "execute e p rs =
     (if status research \<noteq> COMPLETED
      then Resolved (Failed ''Research is not yet completed'')
      else Resolved (Success (ReportResult (Some rid) (question research) (report research)
             (length (subQuestions research)) (length (steps research))
             (startTime research) (endTime research)
             (case endTime research of
                None \<Rightarrow> None
              | Some t \<Rightarrow> Some (of_int (t - startTime research) / 1000)))),
      rs)"
proof -
  have l: "lookupResearch p rs = Some (rid, research)"
    using assms by (simp add: lookupResearch_Some)
  show ?thesis
    using assms(3) by (simp add: execute_report [OF assms(4) l] generateReport_def l duration_def)
qed

theorem report_operation_witness:
  "fst (execute (exampleEnv 5 searchFinds) (actionParams ''report'' ''r2'')
          [''r2'' \<mapsto> finishedResearch])
     = Resolved (Success (ReportResult (Some ''r2'') (Some ''Wind power'')
         (Some ''No research data'') 0 0 1000 (Some 4000) (Some 3)))
   \<and> fst (execute (exampleEnv 5 searchFinds) (actionParams ''report'' ''r1'')
          [''r1'' \<mapsto> pendingResearch])
     = Resolved (Failed ''Research is not yet completed'')"
  using report_operation [of "[''r2'' \<mapsto> finishedResearch]" "''r2''" finishedResearch
          "actionParams ''report'' ''r2''" "exampleEnv 5 searchFinds"]
        report_operation [of "[''r1'' \<mapsto> pendingResearch]" "''r1''" pendingResearch
          "actionParams ''report'' ''r1''" "exampleEnv 5 searchFinds"]
  by (simp add: actionParams_def finishedResearch_def pendingResearch_def)

text \<open>
  C7 as stated fails on the duration: the research of \<open>completedRun\<close> starts at 1000 and
  ends at 4001, and the report operation returns the duration 3001 / 1000, not 3001.
\<close>

theorem report_duration_in_seconds:
  "map_option (\<lambda>research. (startTime research, endTime research))
     (run completedRun Map.empty ''id-1-0'') = Some (1000, Some 4001)
   \<and> Option.bind
       (successResult (fst (execute (exampleEnv 5 searchFinds) (actionParams ''report'' ''id-1-0'')
                              (run completedRun Map.empty))))
       resultDuration = Some (3001 / 1000)
   \<and> (3001 / 1000 :: rat) \<noteq> of_int (4001 - 1000)"
  by code_simp

text \<open>
  C8, as the code has it. For a research stored under a (non-empty) id whose status is
  \<open>completed\<close>, a continue operation returns a success response that carries the id, the
  question, the status and the message \<open>Research is already completed\<close>, and leaves the
  store as it was: no step is appended and no field of the session changes, so the report
  operation returns afterwards what it returned before.
\<close>

theorem continue_completed_is_noop:
  assumes "rs rid = Some research" and "rid \<noteq> []" and "status research = COMPLETED"
    and "researchId p = Some rid" and "action p = Some ''continue''"
  shows "execute e p rs =
           (Resolved (Success (AlreadyCompleted (Some rid) (question research) COMPLETED
              ''Research is already completed'')), rs)
         \<and> generateReport p' (snd (execute e p rs)) = generateReport p' rs"
proof -
  have l: "lookupResearch p rs = Some (rid, research)"
    using assms by (simp add: lookupResearch_Some)
  have "execute e p rs =
           (Resolved (Success (AlreadyCompleted (Some rid) (question research) COMPLETED
              ''Research is already completed'')), rs)"
    using assms(3,4) by (simp add: execute_continue [OF assms(5) l] continueResearch_def l)
  then show ?thesis by simp
qed

theorem continue_completed_is_noop_witness:
  "execute (exampleEnv 5 searchFinds) (actionParams ''continue'' ''r2'')
     [''r2'' \<mapsto> finishedResearch]
   = (Resolved (Success (AlreadyCompleted (Some ''r2'') (Some ''Wind power'') COMPLETED
        ''Research is already completed'')), [''r2'' \<mapsto> finishedResearch])"
  using continue_completed_is_noop [of "[''r2'' \<mapsto> finishedResearch]" "''r2''" finishedResearch
          "actionParams ''continue'' ''r2''" "exampleEnv 5 searchFinds"]
  by (simp add: actionParams_def finishedResearch_def)

text \<open>
  C8 as stated fails on what is returned: the response of a continue operation on the
  completed research of \<open>completedRun\<close> has no report, while the research has one.
\<close>

theorem continue_completed_returns_no_report:
  "successResult (fst (execute (exampleEnv 5 searchFinds) (actionParams ''continue'' ''id-1-0'')
                         (run completedRun Map.empty)))
     = Some (AlreadyCompleted (Some ''id-1-0'') (Some ''Compare solar and wind energy'') COMPLETED
         ''Research is already completed'')
   \<and> resultReport (AlreadyCompleted (Some ''id-1-0'') (Some ''Compare solar and wind energy'')
        COMPLETED ''Research is already completed'') = None
   \<and> map_option (\<lambda>research. report research = None) (run completedRun Map.empty ''id-1-0'')
     = Some False"
  by code_simp

lemma execute_requires_query_or_id:
  "falsy (query p) \<Longrightarrow> falsy (researchId p)
     \<Longrightarrow> execute e p rs = (Resolved (Failed ''Either query or researchId is required''), rs)"
  by (simp add: execute_def)

text \<open>
  C9 at the input that breaks it: a request without \<open>query\<close> and without \<open>action\<close> that
  carries a \<open>researchId\<close> passes the check of \<open>execute\<close>, is dispatched to
  \<open>startResearch\<close>, which stores a new research (status \<open>planning\<close>, question undefined)
  before \<open>analyzeQuestion\<close> throws; the promise is rejected.
\<close>

theorem start_without_query_stores_research:
  "fst (execute (exampleEnv 1 searchFinds)
          \<lparr>query = None, maxSubQuestions = None, researchId = Some ''abc'', action = None\<rparr>
          Map.empty) = Rejected TypeError
   \<and> map_option (\<lambda>research. (status research, question research, subQuestions research))
       (snd (execute (exampleEnv 1 searchFinds)
               \<lparr>query = None, maxSubQuestions = None, researchId = Some ''abc'', action = None\<rparr>
               Map.empty) ''id-1-0'')
     = Some (PLANNING, None, [])"
  by code_simp

section \<open>Sequences of operations: status and sub-questions in progress\<close>

lemma inProgress_update:
  assumes "findIndex isPending sqs = Some i"
  shows "length (filter (\<lambda>sq. sq_status sq = InProgress) (sqs[i := sq']))
           = length (filter (\<lambda>sq. sq_status sq = InProgress) sqs)
             + (if sq_status sq' = InProgress then 1 else 0)"
proof -
  from findIndex_Some [OF assms] have "i < length sqs" "sq_status (sqs ! i) = Pending"
    by (simp_all add: isPending_def)
  then show ?thesis by (simp add: count_list_update)
qed

text \<open>What one call of \<open>continueResearch\<close> does to the research it finds.\<close>

lemma continueResearch_step:
  assumes "lookupResearch p rs = Some (rid, r)"
  shows "\<exists>r'. snd (continueResearch e p rs) = rs(rid \<mapsto> r')
           \<and> rank (status r) \<le> rank (status r')
           \<and> inProgressCount r'
               = inProgressCount r + (if searchOrAnalysisThrows e r then 1 else 0)"
proof (cases "status r = COMPLETED")
  case True
  have "rs rid = Some r" using assms by (simp add: lookupResearch_Some)
  then have "rs(rid \<mapsto> r) = rs" by (simp add: fun_upd_idem)
  then show ?thesis
    using True assms
    by (intro exI [of _ r]) (simp add: continueResearch_def searchOrAnalysisThrows_def)
next
  case nc: False
  show ?thesis
  proof (cases "findIndex isPending (subQuestions r)")
    case None
    show ?thesis
    proof (cases "synthesizeCall (question r) (subQuestions r)")
      case (Inl err)
      then show ?thesis
        using nc None assms
        by (intro exI [of _ "r\<lparr>steps := steps r @ [synthesisStep e False],
                               status := SYNTHESIZING\<rparr>"])
           (cases "status r"; simp add: continueResearch_def synthesizeResults_def Let_def
              inProgressCount_def searchOrAnalysisThrows_def)
    next
      case (Inr rep)
      then show ?thesis
        using nc None assms
        by (intro exI [of _ "r\<lparr>steps := steps r @ [synthesisStep e True], status := COMPLETED,
                               report := Some rep, endTime := Some (now e 1)\<rparr>"])
           (cases "status r"; simp add: continueResearch_def synthesizeResults_def Let_def
              inProgressCount_def searchOrAnalysisThrows_def)
    qed
  next
    case (Some i)
    note upd = inProgress_update [OF Some]
    let ?picked = "subQuestions r ! i"
    let ?asked = "sq_question ?picked"
    show ?thesis
    proof (cases "performSearch e ?asked")
      case (Inl err)
      then show ?thesis
        using nc Some assms upd
        by (intro exI [of _ "r\<lparr>subQuestions := (subQuestions r)
                                   [i := ?picked\<lparr>sq_status := InProgress\<rparr>],
                               steps := steps r @ [searchStep e ?asked None]\<rparr>"])
           (simp add: continueResearch_def Let_def inProgressCount_def
              searchOrAnalysisThrows_def)
    next
      case (Inr results)
      note s = this
      show ?thesis
      proof (cases "analyzeResults e results ?asked")
        case (Inl err)
        then show ?thesis
          using nc Some assms upd s
          by (intro exI [of _ "r\<lparr>subQuestions := (subQuestions r)
                                    [i := ?picked\<lparr>sq_status := InProgress,
                                                  searchResults := Some results\<rparr>],
                                 steps := steps r @ [searchStep e ?asked (Some (length results)),
                                                     analysisStep e ?asked False]\<rparr>"])
             (simp add: continueResearch_def Let_def inProgressCount_def
                searchOrAnalysisThrows_def)
      next
        case (Inr a)
        then show ?thesis
          using nc Some assms upd s
          by (intro exI [of _ "r\<lparr>subQuestions := (subQuestions r)
                                    [i := ?picked\<lparr>sq_status := Completed,
                                                  searchResults := Some results,
                                                  analysis := Some a\<rparr>],
                                 steps := steps r @ [searchStep e ?asked (Some (length results)),
                                                     analysisStep e ?asked True]\<rparr>"])
             (simp add: continueResearch_def Let_def inProgressCount_def
                searchOrAnalysisThrows_def)
      qed
    qed
  qed
qed

lemma continueResearch_other:
  "lookupResearch p rs = None \<Longrightarrow> snd (continueResearch e p rs) = rs"
  by (simp add: continueResearch_def)

lemma startResearch_store:
  "\<exists>r'. snd (startResearch e p rs) = rs(uuidv4 e 0 \<mapsto> r') \<and> inProgressCount r' = 0"
proof (cases "query p")
  case None
  let ?r = "\<lparr>research_id = uuidv4 e 0, question = None, subQuestions = [],
             steps = [questionAnalysisStep e None None], status = PLANNING, report = None,
             startTime = now e 0, endTime = None\<rparr>"
  from None show ?thesis
    by (intro exI [of _ ?r]) (simp add: startResearch_def Let_def inProgressCount_def)
next
  case (Some q)
  define r' where "r' = the (snd (startResearch e p rs) (uuidv4 e 0))"
  from Some have "snd (startResearch e p rs) = rs(uuidv4 e 0 \<mapsto> r')"
    by (simp add: r'_def startResearch_def Let_def)
  moreover from Some have "inProgressCount r' = 0"
    by (simp add: r'_def startResearch_def Let_def inProgressCount_def filter_empty_conv
        split_beta)
  ultimately show ?thesis by blast
qed

text \<open>
  The store after one operation, by cases on what the operation is, and whether the
  operation is one in which the search or the analysis throws for the research \<open>rid\<close>.
\<close>

lemma execute_store:
  "snd (execute e p rs) = rs \<and> \<not> failsOn rid e p rs
   \<or> snd (execute e p rs) = snd (startResearch e p rs) \<and> \<not> failsOn rid e p rs
   \<or> snd (execute e p rs) = snd (continueResearch e p rs)
      \<and> failsOn rid e p rs
          = (case lookupResearch p rs of
               None \<Rightarrow> False
             | Some (rid', r) \<Rightarrow> rid' = rid \<and> searchOrAnalysisThrows e r)"
proof (cases "falsy (query p) \<and> falsy (researchId p)")
  case True
  then have "lookupResearch p rs = None"
    by (auto simp: lookupResearch_def falsy_def split: option.splits)
  with True show ?thesis by (simp add: execute_def failsOn_def)
next
  case False
  then have "execute e p rs =
      (let act = requestedAction p
       in if act = ''start'' then startResearch e p rs
          else if act = ''status'' then (getResearchStatus p rs, rs)
          else if act = ''continue'' then continueResearch e p rs
          else if act = ''report'' then (generateReport p rs, rs)
          else (Resolved (Failed (''Invalid action: '' @ act)), rs))"
    unfolding execute_def by (rule if_not_P)
  then show ?thesis by (simp add: failsOn_def Let_def)
qed

lemma execute_step:
  assumes "rs rid = Some r" and "rs (uuidv4 e 0) = None"
  shows "\<exists>r'. snd (execute e p rs) rid = Some r'
           \<and> rank (status r) \<le> rank (status r')
           \<and> inProgressCount r'
               = inProgressCount r + (if failsOn rid e p rs then 1 else 0)"
proof -
  from assms have ne: "uuidv4 e 0 \<noteq> rid" by auto
  consider (same) "snd (execute e p rs) = rs" "\<not> failsOn rid e p rs"
    | (start) "snd (execute e p rs) = snd (startResearch e p rs)" "\<not> failsOn rid e p rs"
    | (continue) "snd (execute e p rs) = snd (continueResearch e p rs)"
        "failsOn rid e p rs
          = (case lookupResearch p rs of
               None \<Rightarrow> False
             | Some (rid', r) \<Rightarrow> rid' = rid \<and> searchOrAnalysisThrows e r)"
    using execute_store [of e p rs rid] by blast
  then show ?thesis
  proof cases
    case same
    with assms show ?thesis by simp
  next
    case start
    from startResearch_store obtain r' where "snd (startResearch e p rs) = rs(uuidv4 e 0 \<mapsto> r')"
      by blast
    with start ne assms show ?thesis by simp
  next
    case continue
    show ?thesis
    proof (cases "lookupResearch p rs")
      case None
      with continue assms show ?thesis by (simp add: continueResearch_other)
    next
      case (Some a)
      then obtain rid' r0 where l: "lookupResearch p rs = Some (rid', r0)" by (cases a) auto
      from continueResearch_step [OF l, of e] obtain r' where
        r': "snd (continueResearch e p rs) = rs(rid' \<mapsto> r')"
        "rank (status r0) \<le> rank (status r')"
        "inProgressCount r'
           = inProgressCount r0 + (if searchOrAnalysisThrows e r0 then 1 else 0)"
        by blast
      show ?thesis
      proof (cases "rid' = rid")
        case True
        with l assms have "r0 = r" by (simp add: lookupResearch_Some)
        with r' True continue l show ?thesis by simp
      next
        case False
        with r' continue assms l show ?thesis by simp
      qed
    qed
  qed
qed

lemma execute_new:
  assumes "rs rid = None"
  shows "\<not> failsOn rid e p rs"
    and "snd (execute e p rs) rid = Some r' \<Longrightarrow> inProgressCount r' = 0"
proof -
  show "\<not> failsOn rid e p rs"
    using assms by (auto simp: failsOn_def lookupResearch_Some split: option.splits)
  assume s: "snd (execute e p rs) rid = Some r'"
  consider (same) "snd (execute e p rs) = rs"
    | (start) "snd (execute e p rs) = snd (startResearch e p rs)"
    | (continue) "snd (execute e p rs) = snd (continueResearch e p rs)"
    using execute_store [of e p rs rid] by blast
  then show "inProgressCount r' = 0"
  proof cases
    case same
    with assms s show ?thesis by simp
  next
    case start
    from startResearch_store obtain r0 where
      "snd (startResearch e p rs) = rs(uuidv4 e 0 \<mapsto> r0)" "inProgressCount r0 = 0"
      by blast
    with start assms s show ?thesis by (auto split: if_splits)
  next
    case continue
    show ?thesis
    proof (cases "lookupResearch p rs")
      case None
      with continue assms s show ?thesis by (simp add: continueResearch_other)
    next
      case (Some a)
      then obtain rid' r0 where l: "lookupResearch p rs = Some (rid', r0)" by (cases a) auto
      from continueResearch_step [OF l, of e] obtain r1 where
        "snd (continueResearch e p rs) = rs(rid' \<mapsto> r1)" by blast
      moreover from l have "rs rid' = Some r0" by (simp add: lookupResearch_Some)
      ultimately show ?thesis using continue assms s by (auto split: if_splits)
    qed
  qed
qed

lemma run_count:
  "freshIds ops rs \<Longrightarrow> rs rid = Some r
     \<Longrightarrow> \<exists>r'. run ops rs rid = Some r' \<and> rank (status r) \<le> rank (status r')
              \<and> inProgressCount r' = inProgressCount r + failures rid ops rs"
proof (induction ops arbitrary: rs r)
  case Nil
  then show ?case by simp
next
  case (Cons op ops)
  obtain e p where op: "op = (e, p)" by (cases op)
  from Cons.prems op have f: "rs (uuidv4 e 0) = None" "freshIds ops (snd (execute e p rs))"
    by simp_all
  from execute_step [OF Cons.prems(2) f(1), of p] obtain r1 where
    r1: "snd (execute e p rs) rid = Some r1" "rank (status r) \<le> rank (status r1)"
      "inProgressCount r1 = inProgressCount r + (if failsOn rid e p rs then 1 else 0)"
    by blast
  from Cons.IH [OF f(2) r1(1)] obtain r' where
    "run ops (snd (execute e p rs)) rid = Some r'" "rank (status r1) \<le> rank (status r')"
    "inProgressCount r' = inProgressCount r1 + failures rid ops (snd (execute e p rs))"
    by blast
  with r1(2,3) show ?case by (simp add: op)
qed

lemma run_count_new:
  "freshIds ops rs \<Longrightarrow> rs rid = None \<Longrightarrow> run ops rs rid = Some r'
     \<Longrightarrow> inProgressCount r' = failures rid ops rs"
proof (induction ops arbitrary: rs)
  case Nil
  then show ?case by simp
next
  case (Cons op ops)
  obtain e p where op: "op = (e, p)" by (cases op)
  from Cons.prems op have f: "freshIds ops (snd (execute e p rs))"
    and r: "run ops (snd (execute e p rs)) rid = Some r'"
    by simp_all
  note n = execute_new [where rs = rs and rid = rid and e = e and p = p, OF Cons.prems(2)]
  show ?case
  proof (cases "snd (execute e p rs) rid")
    case None
    from Cons.IH [OF f None r] n(1) show ?thesis by (simp add: op)
  next
    case (Some r1)
    from run_count [OF f Some] r n(2) [OF Some] n(1) show ?thesis by (simp add: op)
  qed
qed

lemma run_append: "run (ops1 @ ops2) rs = run ops2 (run ops1 rs)"
  by (induction ops1 arbitrary: rs) auto

lemma freshIds_append:
  "freshIds (ops1 @ ops2) rs \<longleftrightarrow> freshIds ops1 rs \<and> freshIds ops2 (run ops1 rs)"
  by (induction ops1 arbitrary: rs) auto

lemma failures_append:
  "failures rid (ops1 @ ops2) rs = failures rid ops1 rs + failures rid ops2 (run ops1 rs)"
  by (induction ops1 arbitrary: rs) auto

text \<open>
  C2, as the code has it. Take any sequence of operations on a tool that starts with no
  research (the identifiers drawn being fresh), and any two points of it, a research
  \<open>r\<close> as stored after \<open>ops1\<close> and as stored, \<open>r'\<close>, after \<open>ops1 @ ops2\<close>. The
  research is still stored and its status has not moved backwards along planning,
  searching, synthesizing, completed. At either point the number of its sub-questions in
  progress is the number of continue operations on it, so far, in which the search or the
  analysis has thrown: none while none has thrown, one after a single failure, and one
  more with every further failure.
\<close>

theorem status_monotone_in_progress_counted:
  assumes "freshIds (ops1 @ ops2) Map.empty" and "run ops1 Map.empty rid = Some r"
  shows "\<exists>r'. run (ops1 @ ops2) Map.empty rid = Some r'
           \<and> rank (status r) \<le> rank (status r')
           \<and> inProgressCount r = failures rid ops1 Map.empty
           \<and> inProgressCount r' = failures rid (ops1 @ ops2) Map.empty"
proof -
  from assms(1) have f: "freshIds ops1 Map.empty" "freshIds ops2 (run ops1 Map.empty)"
    by (simp_all add: freshIds_append)
  from run_count_new [OF f(1) _ assms(2)]
  have c: "inProgressCount r = failures rid ops1 Map.empty" by simp
  from run_count [OF f(2) assms(2)] obtain r' where
    "run (ops1 @ ops2) Map.empty rid = Some r'" "rank (status r) \<le> rank (status r')"
    "inProgressCount r' = inProgressCount r + failures rid ops2 (run ops1 Map.empty)"
    by (auto simp: run_append)
  with c show ?thesis by (simp add: failures_append)
qed

theorem status_monotone_in_progress_counted_witness:
  "map_option (\<lambda>r'. (inProgressCount r', 1 \<le> rank (status r')))
     (run (started @ [(exampleEnv 2 searchFails, actionParams ''continue'' ''id-1-0''),
                      (exampleEnv 3 searchFinds, actionParams ''continue'' ''id-1-0'')])
        Map.empty ''id-1-0'') = Some (1, True)"
proof -
  let ?ops2 = "[(exampleEnv 2 searchFails, actionParams ''continue'' ''id-1-0''),
                (exampleEnv 3 searchFinds, actionParams ''continue'' ''id-1-0'')]"
  have fresh: "freshIds (started @ ?ops2) Map.empty"
    by code_simp
  have st: "map_option status (run started Map.empty ''id-1-0'') = Some SEARCHING"
    by code_simp
  have fl: "failures ''id-1-0'' (started @ ?ops2) Map.empty = 1"
    by code_simp
  from st obtain r where r: "run started Map.empty ''id-1-0'' = Some r" "status r = SEARCHING"
    by auto
  from status_monotone_in_progress_counted [OF fresh r(1)] obtain r' where
    "run (started @ ?ops2) Map.empty ''id-1-0'' = Some r'" "rank (status r) \<le> rank (status r')"
    "inProgressCount r' = failures ''id-1-0'' (started @ ?ops2) Map.empty"
    by blast
  then show ?thesis using r(2) fl by simp
qed

text \<open>
  C2 as stated fails: after two continue operations whose search throws, both
  sub-questions of the research are in progress.
\<close>

theorem two_failures_two_in_progress:
  "subQuestionStatuses
     (run (started @ [(exampleEnv 2 searchFails, actionParams ''continue'' ''id-1-0''),
                      (exampleEnv 3 searchFails, actionParams ''continue'' ''id-1-0'')])
        Map.empty) ''id-1-0'' = Some [InProgress, InProgress]
   \<and> map_option inProgressCount
       (run (started @ [(exampleEnv 2 searchFails, actionParams ''continue'' ''id-1-0''),
                        (exampleEnv 3 searchFails, actionParams ''continue'' ''id-1-0'')])
          Map.empty ''id-1-0'') = Some 2"
  by code_simp

end
